theory Spec2Isabelle
  imports Complex_Main
begin

section \<open>Dates: the part of ECMAScript's Date that the application uses\<close>

text \<open>
  A JavaScript \<^verbatim>\<open>Date\<close> holds a time value: milliseconds since 1970-01-01T00:00Z.
  The application stores calendar days as date-only strings \<^verbatim>\<open>YYYY-MM-DD\<close>
  (\<^verbatim>\<open>date: string; // YYYY-MM-DD\<close> in the type declarations). Such a string is
  represented here by the day number it denotes (days since 1970-01-01); the text of the
  string is produced by \<open>isoDateString\<close> where the code builds an id from it.

  The definitions below follow ECMA-262, section "Date Objects": \<open>Day\<close>,
  \<open>TimeWithinDay\<close>, \<open>DaysInYear\<close>, \<open>DayFromYear\<close>, \<open>YearFromTime\<close>,
  \<open>MonthFromTime\<close>, \<open>DateFromTime\<close>, \<open>WeekDay\<close>, \<open>MakeDay\<close>, \<open>MakeDate\<close>,
  \<open>LocalTime\<close> and \<open>UTC\<close>. The year, month and date functions are given on day
  numbers and applied to \<open>Day t\<close>. The host's offset from UTC (\<open>localTZA\<close>) is a
  constant of the host: zones with daylight saving are outside this model, and so is the
  limit of 8.64e15 ms beyond which a Date is invalid.
\<close>

definition msPerDay :: int where
  "msPerDay = 86400000"

definition Day :: "int \<Rightarrow> int" where
  "Day t = t div msPerDay"

definition TimeWithinDay :: "int \<Rightarrow> int" where
  "TimeWithinDay t = t mod msPerDay"

definition DaysInYear :: "int \<Rightarrow> int" where
  "DaysInYear y =
     (if y mod 4 \<noteq> 0 then 365
      else if y mod 100 \<noteq> 0 then 366
      else if y mod 400 \<noteq> 0 then 365
      else 366)"

definition DayFromYear :: "int \<Rightarrow> int" where
  "DayFromYear y =
     365 * (y - 1970) + (y - 1969) div 4 - (y - 1901) div 100 + (y - 1601) div 400"

text \<open>
  ECMA-262 defines the year of a time value as the largest \<open>y\<close> with
  \<open>DayFromYear y \<le> Day t\<close>. The executable form estimates the year from the mean
  length of a Gregorian year (146097 days in 400 years) and corrects the estimate by one;
  \<open>YearFromDay_correct\<close> and \<open>YearFromDay_unique\<close> show that this is the year of
  the standard.
\<close>

definition YearFromDay :: "int \<Rightarrow> int" where
  "YearFromDay d =
     (let y = 1970 + (400 * d) div 146097
      in if d < DayFromYear y then y - 1
         else if DayFromYear (y + 1) \<le> d then y + 1
         else y)"

definition InLeapYear :: "int \<Rightarrow> int" where
  "InLeapYear y = (if DaysInYear y = 366 then 1 else 0)"

definition DayWithinYear :: "int \<Rightarrow> int" where
  "DayWithinYear d = d - DayFromYear (YearFromDay d)"

text \<open>The day within the year on which month \<open>m\<close> (0 = January) starts.\<close>

definition monthStart :: "int \<Rightarrow> int \<Rightarrow> int" where
  "monthStart leap m =
     (if m \<le> 0 then 0
      else if m = 1 then 31
      else if m = 2 then 59 + leap
      else if m = 3 then 90 + leap
      else if m = 4 then 120 + leap
      else if m = 5 then 151 + leap
      else if m = 6 then 181 + leap
      else if m = 7 then 212 + leap
      else if m = 8 then 243 + leap
      else if m = 9 then 273 + leap
      else if m = 10 then 304 + leap
      else 334 + leap)"

definition MonthFromDay :: "int \<Rightarrow> int" where
  "MonthFromDay d =
     (let w = DayWithinYear d; leap = InLeapYear (YearFromDay d)
      in if w < 31 then 0
         else if w < 59 + leap then 1
         else if w < 90 + leap then 2
         else if w < 120 + leap then 3
         else if w < 151 + leap then 4
         else if w < 181 + leap then 5
         else if w < 212 + leap then 6
         else if w < 243 + leap then 7
         else if w < 273 + leap then 8
         else if w < 304 + leap then 9
         else if w < 334 + leap then 10
         else 11)"

definition DateFromDay :: "int \<Rightarrow> int" where
  "DateFromDay d =
     DayWithinYear d - monthStart (InLeapYear (YearFromDay d)) (MonthFromDay d) + 1"

definition WeekDay :: "int \<Rightarrow> int" where
  "WeekDay d = (d + 4) mod 7"

definition MakeDay :: "int \<Rightarrow> int \<Rightarrow> int \<Rightarrow> int" where
  "MakeDay year month dt =
     (let ym = year + month div 12; mn = month mod 12
      in DayFromYear ym + monthStart (InLeapYear ym) mn + dt - 1)"

definition MakeDate :: "int \<Rightarrow> int \<Rightarrow> int" where
  "MakeDate day time = day * msPerDay + time"

text \<open>
  The host: the current instant (\<^verbatim>\<open>new Date()\<close>) and the offset of its local time
  zone from UTC, both in milliseconds (\<open>localTZA = 0\<close> for a host on UTC,
  \<open>10800000\<close> for UTC+3, \<open>-18000000\<close> for UTC-5).
\<close>

record host =
  now :: int
  localTZA :: int

definition LocalTime :: "host \<Rightarrow> int \<Rightarrow> int" where
  "LocalTime h t = t + localTZA h"

definition UTC :: "host \<Rightarrow> int \<Rightarrow> int" where
  "UTC h t = t - localTZA h"

text \<open>\<^verbatim>\<open>new Date("YYYY-MM-DD")\<close>: a date-only string is read as UTC midnight of that day.\<close>

definition parseDateOnly :: "int \<Rightarrow> int" where
  "parseDateOnly d = MakeDate d 0"

text \<open>\<^verbatim>\<open>d.setHours(0, 0, 0, 0)\<close>: midnight of the local day of \<open>t\<close>.\<close>

definition setHours0 :: "host \<Rightarrow> int \<Rightarrow> int" where
  "setHours0 h t = UTC h (MakeDate (Day (LocalTime h t)) 0)"

text \<open>\<^verbatim>\<open>d.toISOString().split('T')[0]\<close>: the UTC day of \<open>t\<close>, as a day number.\<close>

definition toISODate :: "int \<Rightarrow> int" where
  "toISODate t = Day t"

definition getFullYear :: "host \<Rightarrow> int \<Rightarrow> int" where
  "getFullYear h t = YearFromDay (Day (LocalTime h t))"

definition getMonth :: "host \<Rightarrow> int \<Rightarrow> int" where
  "getMonth h t = MonthFromDay (Day (LocalTime h t))"

definition getDate :: "host \<Rightarrow> int \<Rightarrow> int" where
  "getDate h t = DateFromDay (Day (LocalTime h t))"

definition getDay :: "host \<Rightarrow> int \<Rightarrow> int" where
  "getDay h t = WeekDay (Day (LocalTime h t))"

definition setDate :: "host \<Rightarrow> int \<Rightarrow> int \<Rightarrow> int" where
  "setDate h t dt =
     (let lt = LocalTime h t
      in UTC h (MakeDate (MakeDay (YearFromDay (Day lt)) (MonthFromDay (Day lt)) dt)
                         (TimeWithinDay lt)))"

definition setMonth :: "host \<Rightarrow> int \<Rightarrow> int \<Rightarrow> int" where
  "setMonth h t m =
     (let lt = LocalTime h t
      in UTC h (MakeDate (MakeDay (YearFromDay (Day lt)) m (DateFromDay (Day lt)))
                         (TimeWithinDay lt)))"

definition setFullYear :: "host \<Rightarrow> int \<Rightarrow> int \<Rightarrow> int" where
  "setFullYear h t y =
     (let lt = LocalTime h t
      in UTC h (MakeDate (MakeDay y (MonthFromDay (Day lt)) (DateFromDay (Day lt)))
                         (TimeWithinDay lt)))"

text \<open>\<^verbatim>\<open>new Date(year, month, 1)\<close>: local midnight of the first day of a month.\<close>

definition newDateLocal :: "host \<Rightarrow> int \<Rightarrow> int \<Rightarrow> int \<Rightarrow> int" where
  "newDateLocal h y m dt = UTC h (MakeDate (MakeDay y m dt) 0)"

text \<open>The three helpers of the application (\<^verbatim>\<open>App.tsx\<close>).\<close>

definition addDays :: "host \<Rightarrow> int \<Rightarrow> int \<Rightarrow> int" where
  "addDays h date days = setDate h date (getDate h date + days)"

definition addMonths :: "host \<Rightarrow> int \<Rightarrow> int \<Rightarrow> int" where
  "addMonths h date months = setMonth h date (getMonth h date + months)"

definition addYears :: "host \<Rightarrow> int \<Rightarrow> int \<Rightarrow> int" where
  "addYears h date years = setFullYear h date (getFullYear h date + years)"

subsection \<open>The text of a date-only string\<close>

text \<open>The character of a decimal digit: \<open>48\<close> is the code of the character 0.\<close>

definition digitChar :: "nat \<Rightarrow> char" where
  "digitChar n = char_of (48 + n)"

fun decimal :: "nat \<Rightarrow> string" where
  "decimal n = (if n < 10 then [digitChar n] else decimal (n div 10) @ [digitChar (n mod 10)])"

declare decimal.simps [simp del]

definition padStart :: "nat \<Rightarrow> string \<Rightarrow> string" where
  "padStart k s = replicate (k - length s) (CHR ''0'') @ s"

text \<open>
  The year of \<^verbatim>\<open>toISOString\<close>: four digits for the years 0 to 9999, a sign and six
  digits otherwise.
\<close>

definition isoYear :: "int \<Rightarrow> string" where
  "isoYear y =
     (if 0 \<le> y \<and> y \<le> 9999 then padStart 4 (decimal (nat y))
      else (if y < 0 then ''-'' else ''+'') @ padStart 6 (decimal (nat \<bar>y\<bar>)))"

definition isoDateString :: "int \<Rightarrow> string" where
  "isoDateString d =
     isoYear (YearFromDay d) @ ''-'' @ padStart 2 (decimal (nat (MonthFromDay d + 1)))
       @ ''-'' @ padStart 2 (decimal (nat (DateFromDay d)))"

section \<open>Data model (\<^verbatim>\<open>types.ts\<close>)\<close>

text \<open>
  Amounts are JavaScript numbers in the source. The records hold them as rationals, and
  the sums of the summary and the conversion of currencies are exact. The test of the
  budget alerts is computed in the binary64 arithmetic of the source, where the rounding
  decides whether an alert is given. The optional \<^verbatim>\<open>notes\<close> field is an option.
\<close>

datatype transactionType = Income | Expense

record transaction =
  tx_id :: string
  tx_description :: string
  tx_amount :: rat
  tx_type :: transactionType
  tx_date :: int
  tx_category :: string
  tx_notes :: "string option"
  tx_currencyCode :: string

text \<open>
  The frequency is kept as the string the code switches on, so that the \<^verbatim>\<open>default\<close>
  branch of the switch has inputs.
\<close>

record recurringTransaction =
  rt_id :: string
  rt_description :: string
  rt_amount :: rat
  rt_type :: transactionType
  rt_category :: string
  rt_frequency :: string
  rt_startDate :: int
  rt_nextOccurrenceDate :: int
  rt_notes :: "string option"
  rt_currencyCode :: string

record budget =
  b_category :: string
  b_amount :: rat

record categoryBreakdown =
  cb_category :: string
  cb_amount :: rat

record summaryData =
  totalIncome :: rat
  totalExpense :: rat
  netSavings :: rat
  categoryBreakdown :: "categoryBreakdown list"

section \<open>Facts about the calendar\<close>

lemma divmod_bounds:
  fixes a k :: int
  assumes "0 < k"
  shows "k * (a div k) \<le> a" and "a < k * (a div k) + k"
proof -
  have "a = k * (a div k) + a mod k" by simp
  moreover have "0 \<le> a mod k" "a mod k < k" using assms by simp_all
  ultimately show "k * (a div k) \<le> a" and "a < k * (a div k) + k" by linarith+
qed

lemma div_succ:
  fixes a n :: int
  assumes "0 < n"
  shows "(a + 1) div n = a div n + (if (a + 1) mod n = 0 then 1 else 0)"
proof (cases "a mod n = n - 1")
  case True
  have "a = n * (a div n) + (n - 1)"
    using True by (metis mult_div_mod_eq)
  then have e: "a + 1 = n * (a div n + 1)"
    by (simp add: algebra_simps)
  have "(a + 1) div n = a div n + 1" "(a + 1) mod n = 0"
    unfolding e using assms by simp_all
  then show ?thesis by simp
next
  case False
  have r: "0 \<le> a mod n + 1" "a mod n + 1 < n"
    using False assms pos_mod_bound[of n a] pos_mod_sign[of n a] by linarith+
  have e: "a + 1 = n * (a div n) + (a mod n + 1)" by simp
  have "(a + 1) div n = a div n" using int_div_pos_eq[OF e r] .
  moreover have "(a + 1) mod n = a mod n + 1" using int_mod_pos_eq[OF e r] .
  moreover have "a mod n + 1 \<noteq> 0"
    using pos_mod_sign[of n a] assms by linarith
  ultimately show ?thesis by simp
qed

lemma mod_shift:
  fixes y :: int
  shows "(y - n * k) mod n = y mod n"
proof -
  have "y - n * k = y + n * (- k)" by simp
  then show ?thesis by (metis mod_mult_self2)
qed

lemma mod_400_100: "(y::int) mod 400 = 0 \<Longrightarrow> y mod 100 = 0"
proof -
  assume "y mod 400 = 0"
  then have "400 dvd y" by (simp add: mod_eq_0_iff_dvd)
  moreover have "(100::int) dvd 400" by simp
  ultimately have "100 dvd y" using dvd_trans by blast
  then show ?thesis by (simp add: mod_eq_0_iff_dvd)
qed

lemma mod_100_4: "(y::int) mod 100 = 0 \<Longrightarrow> y mod 4 = 0"
proof -
  assume "y mod 100 = 0"
  then have "100 dvd y" by (simp add: mod_eq_0_iff_dvd)
  moreover have "(4::int) dvd 100" by simp
  ultimately have "4 dvd y" using dvd_trans by blast
  then show ?thesis by (simp add: mod_eq_0_iff_dvd)
qed

lemma DayFromYear_step: "DayFromYear (y + 1) = DayFromYear y + DaysInYear y"
proof -
  have a: "(y + 1 - 1969) div 4 = (y - 1969) div 4 + (if y mod 4 = 0 then 1 else 0)"
    using div_succ[of 4 "y - 1969"] mod_shift[of y 4 492] by (simp add: algebra_simps)
  have b: "(y + 1 - 1901) div 100 = (y - 1901) div 100 + (if y mod 100 = 0 then 1 else 0)"
    using div_succ[of 100 "y - 1901"] mod_shift[of y 100 19] by (simp add: algebra_simps)
  have c: "(y + 1 - 1601) div 400 = (y - 1601) div 400 + (if y mod 400 = 0 then 1 else 0)"
    using div_succ[of 400 "y - 1601"] mod_shift[of y 400 4] by (simp add: algebra_simps)
  show ?thesis
    unfolding DayFromYear_def DaysInYear_def a b c
    using mod_400_100[of y] mod_100_4[of y] by auto
qed

lemma DayFromYear_bounds:
  shows "400 * DayFromYear y \<le> 146097 * (y - 1970) + 589"
    and "146097 * (y - 1970) - 506 \<le> 400 * DayFromYear y"
proof -
  define a where "a = (y - 1969) div 4"
  define b where "b = (y - 1901) div 100"
  define c where "c = (y - 1601) div 400"
  have a: "4 * a \<le> y - 1969" "y - 1969 < 4 * a + 4"
    unfolding a_def using divmod_bounds[of 4 "y - 1969"] by simp_all
  have b: "100 * b \<le> y - 1901" "y - 1901 < 100 * b + 100"
    unfolding b_def using divmod_bounds[of 100 "y - 1901"] by simp_all
  have c: "400 * c \<le> y - 1601" "y - 1601 < 400 * c + 400"
    unfolding c_def using divmod_bounds[of 400 "y - 1601"] by simp_all
  have e: "DayFromYear y = 365 * (y - 1970) + a - b + c"
    by (simp add: DayFromYear_def a_def b_def c_def)
  show "400 * DayFromYear y \<le> 146097 * (y - 1970) + 589"
    unfolding e using a b c by simp
  show "146097 * (y - 1970) - 506 \<le> 400 * DayFromYear y"
    unfolding e using a b c by simp
qed

lemma DayFromYear_strict_mono: "y1 < y2 \<Longrightarrow> DayFromYear y1 < DayFromYear y2"
  using DayFromYear_bounds(1)[of y1] DayFromYear_bounds(2)[of y2] by simp

lemma YearFromDay_correct:
  "DayFromYear (YearFromDay d) \<le> d \<and> d < DayFromYear (YearFromDay d + 1)"
proof -
  define y where "y = 1970 + (400 * d) div 146097"
  have y: "146097 * (y - 1970) \<le> 400 * d" "400 * d < 146097 * (y - 1970) + 146097"
    unfolding y_def using divmod_bounds[of 146097 "400 * d"] by simp_all
  have lo: "DayFromYear (y - 1) \<le> d"
    using DayFromYear_bounds(1)[of "y - 1"] y by simp
  have hi: "d < DayFromYear (y + 1 + 1)"
    using DayFromYear_bounds(2)[of "y + 1 + 1"] y by simp
  have s: "DayFromYear (y - 1 + 1) = DayFromYear y"
    by simp
  show ?thesis
    using lo hi s unfolding YearFromDay_def y_def[symmetric] Let_def
    by auto
qed

lemma YearFromDay_unique:
  assumes "DayFromYear y \<le> d" and "d < DayFromYear (y + 1)"
  shows "YearFromDay d = y"
proof (rule ccontr)
  assume ne: "YearFromDay d \<noteq> y"
  let ?z = "YearFromDay d"
  have z: "DayFromYear ?z \<le> d" "d < DayFromYear (?z + 1)"
    using YearFromDay_correct[of d] by simp_all
  show False
  proof (cases "?z < y")
    case True
    then have "?z + 1 = y \<or> ?z + 1 < y" by linarith
    then have "DayFromYear (?z + 1) \<le> DayFromYear y"
      using DayFromYear_strict_mono[of "?z + 1" y] by auto
    then show False using z assms by linarith
  next
    case False
    then have "y + 1 = ?z \<or> y + 1 < ?z" using ne by linarith
    then have "DayFromYear (y + 1) \<le> DayFromYear ?z"
      using DayFromYear_strict_mono[of "y + 1" ?z] by auto
    then show False using z assms by linarith
  qed
qed

lemma DaysInYear_cases: "DaysInYear y = 365 \<or> DaysInYear y = 366"
  by (simp add: DaysInYear_def)

lemma InLeapYear_cases: "InLeapYear y = 0 \<or> InLeapYear y = 1"
  by (simp add: InLeapYear_def)

lemma DaysInYear_leap: "DaysInYear y = 365 + InLeapYear y"
  using DaysInYear_cases[of y] by (auto simp: InLeapYear_def)

lemma DayWithinYear_bounds:
  "0 \<le> DayWithinYear d \<and> DayWithinYear d < 365 + InLeapYear (YearFromDay d)"
  using YearFromDay_correct[of d] DayFromYear_step[of "YearFromDay d"]
    DaysInYear_leap[of "YearFromDay d"]
  by (simp add: DayWithinYear_def)

lemma MonthFromDay_range: "0 \<le> MonthFromDay d \<and> MonthFromDay d \<le> 11"
  by (simp add: MonthFromDay_def Let_def)

lemma DateFromDay_range: "1 \<le> DateFromDay d \<and> DateFromDay d \<le> 31"
  using DayWithinYear_bounds[of d] InLeapYear_cases[of "YearFromDay d"]
  by (auto simp: DateFromDay_def MonthFromDay_def monthStart_def Let_def)

lemma MakeDay_of_day:
  "MakeDay (YearFromDay d) (MonthFromDay d) (DateFromDay d + n) = d + n"
proof -
  have m: "MonthFromDay d div 12 = 0" "MonthFromDay d mod 12 = MonthFromDay d"
    using MonthFromDay_range[of d] by simp_all
  show ?thesis
    by (simp add: MakeDay_def Let_def m DateFromDay_def DayWithinYear_def)
qed

lemma month_cases:
  fixes m :: int
  assumes "0 \<le> m" and "m \<le> 11"
  shows "m = 0 \<or> m = 1 \<or> m = 2 \<or> m = 3 \<or> m = 4 \<or> m = 5 \<or> m = 6 \<or> m = 7 \<or> m = 8
      \<or> m = 9 \<or> m = 10 \<or> m = 11"
  using assms by presburger

lemma monthStart_next:
  assumes "0 \<le> m" and "m < 11" and "leap = 0 \<or> leap = 1"
  shows "monthStart leap m + 28 \<le> monthStart leap (m + 1)"
  using month_cases[of m] assms by (auto simp: monthStart_def)

lemma MakeDay_next_month:
  assumes "0 \<le> m" and "m \<le> 11"
  shows "MakeDay y m dt + 28 \<le> MakeDay y (m + 1) dt"
proof (cases "m = 11")
  case True
  have "DayFromYear (y + 1) = DayFromYear y + 365 + InLeapYear y"
    using DayFromYear_step[of y] DaysInYear_leap[of y] by simp
  then show ?thesis
    using True by (simp add: MakeDay_def monthStart_def)
next
  case False
  then have lt: "m < 11" using assms by simp
  then have d: "m div 12 = 0" "m mod 12 = m" "(m + 1) div 12 = 0" "(m + 1) mod 12 = m + 1"
    using assms by simp_all
  show ?thesis
    using monthStart_next[OF assms(1) lt InLeapYear_cases[of y]]
    by (simp add: MakeDay_def d)
qed

lemma MakeDay_next_year:
  assumes "0 \<le> m" and "m \<le> 11"
  shows "MakeDay y m dt + 365 \<le> MakeDay (y + 1) m dt"
proof -
  have d: "m div 12 = 0" "m mod 12 = m" using assms by simp_all
  have s: "DayFromYear (y + 1) = DayFromYear y + 365 + InLeapYear y"
    using DayFromYear_step[of y] DaysInYear_leap[of y] by simp
  have l: "InLeapYear (y + 1) = 0" if "InLeapYear y = 1"
  proof -
    have "y mod 4 = 0"
      using that by (auto simp: InLeapYear_def DaysInYear_def split: if_splits)
    moreover have "(y + 1) mod 4 = (y mod 4 + 1) mod 4"
      by (simp add: mod_add_left_eq)
    ultimately have "(y + 1) mod 4 \<noteq> 0" by simp
    then show ?thesis by (simp add: InLeapYear_def DaysInYear_def)
  qed
  show ?thesis
    using InLeapYear_cases[of y] InLeapYear_cases[of "y + 1"] l
    by (auto simp: MakeDay_def d s monthStart_def)
qed

lemma msPerDay_pos: "0 < msPerDay"
  by (simp add: msPerDay_def)

lemma MakeDate_Day: "MakeDate (Day t) (TimeWithinDay t) = t"
  by (simp add: MakeDate_def Day_def TimeWithinDay_def)

lemma Day_MakeDate_0: "Day (MakeDate d 0) = d"
  using msPerDay_pos by (simp add: MakeDate_def Day_def)

lemma Day_add_days: "Day (t + n * msPerDay) = Day t + n"
  using msPerDay_pos by (simp add: Day_def)

lemma TimeWithinDay_bounds: "0 \<le> TimeWithinDay t \<and> TimeWithinDay t < msPerDay"
  using msPerDay_pos by (simp add: TimeWithinDay_def)

lemma addDays_eq: "addDays h t n = t + n * msPerDay"
proof -
  let ?lt = "LocalTime h t"
  have "MakeDate (Day ?lt + n) (TimeWithinDay ?lt) = ?lt + n * msPerDay"
    using MakeDate_Day[of ?lt] by (simp add: MakeDate_def algebra_simps)
  then show ?thesis
    by (simp add: addDays_def setDate_def getDate_def Let_def MakeDay_of_day UTC_def
        LocalTime_def)
qed

lemma addMonths_ge: "t + 28 * msPerDay \<le> addMonths h t 1"
proof -
  let ?lt = "LocalTime h t"
  let ?d = "Day ?lt"
  have "MakeDay (YearFromDay ?d) (MonthFromDay ?d) (DateFromDay ?d) + 28
      \<le> MakeDay (YearFromDay ?d) (MonthFromDay ?d + 1) (DateFromDay ?d)"
    using MakeDay_next_month MonthFromDay_range by blast
  then have "?d + 28 \<le> MakeDay (YearFromDay ?d) (MonthFromDay ?d + 1) (DateFromDay ?d)"
    using MakeDay_of_day[of ?d 0] by simp
  then have "(?d + 28) * msPerDay
      \<le> MakeDay (YearFromDay ?d) (MonthFromDay ?d + 1) (DateFromDay ?d) * msPerDay"
    using msPerDay_pos by simp
  then have "?lt + 28 * msPerDay
      \<le> MakeDate (MakeDay (YearFromDay ?d) (MonthFromDay ?d + 1) (DateFromDay ?d))
           (TimeWithinDay ?lt)"
    using MakeDate_Day[of ?lt] by (simp add: MakeDate_def algebra_simps)
  then show ?thesis
    by (simp add: addMonths_def setMonth_def getMonth_def Let_def UTC_def LocalTime_def)
qed

lemma addYears_ge: "t + 365 * msPerDay \<le> addYears h t 1"
proof -
  let ?lt = "LocalTime h t"
  let ?d = "Day ?lt"
  have "MakeDay (YearFromDay ?d) (MonthFromDay ?d) (DateFromDay ?d) + 365
      \<le> MakeDay (YearFromDay ?d + 1) (MonthFromDay ?d) (DateFromDay ?d)"
    using MakeDay_next_year MonthFromDay_range by blast
  then have "?d + 365 \<le> MakeDay (YearFromDay ?d + 1) (MonthFromDay ?d) (DateFromDay ?d)"
    using MakeDay_of_day[of ?d 0] by simp
  then have "(?d + 365) * msPerDay
      \<le> MakeDay (YearFromDay ?d + 1) (MonthFromDay ?d) (DateFromDay ?d) * msPerDay"
    using msPerDay_pos by simp
  then have "?lt + 365 * msPerDay
      \<le> MakeDate (MakeDay (YearFromDay ?d + 1) (MonthFromDay ?d) (DateFromDay ?d))
           (TimeWithinDay ?lt)"
    using MakeDate_Day[of ?lt] by (simp add: MakeDate_def algebra_simps)
  then show ?thesis
    by (simp add: addYears_def setFullYear_def getFullYear_def Let_def UTC_def LocalTime_def)
qed

text \<open>
  The year, month and date of a day determine it, and a valid year, month and date are
  those of the day that \<open>MakeDay\<close> gives them.
\<close>

lemma civil_unique:
  assumes d: "d = DayFromYear y + monthStart (InLeapYear y) m + dt - 1"
    and m: "0 \<le> m" "m \<le> 11"
    and dt: "1 \<le> dt"
    and fit: "monthStart (InLeapYear y) m + dt - 1
                < (if m = 11 then 365 + InLeapYear y else monthStart (InLeapYear y) (m + 1))"
  shows "YearFromDay d = y \<and> MonthFromDay d = m \<and> DateFromDay d = dt"
proof -
  let ?L = "InLeapYear y"
  let ?w = "monthStart ?L m + dt - 1"
  have L: "?L = 0 \<or> ?L = 1" by (rule InLeapYear_cases)
  have w0: "0 \<le> ?w"
    using month_cases[OF m] L dt by (elim disjE) (simp_all add: monthStart_def)
  have w1: "?w < 365 + ?L"
    using month_cases[OF m] L fit by (elim disjE) (simp_all add: monthStart_def)
  have "DayFromYear (y + 1) = DayFromYear y + 365 + ?L"
    using DayFromYear_step[of y] DaysInYear_leap[of y] by simp
  then have y: "YearFromDay d = y"
    using w0 w1 d by (intro YearFromDay_unique) simp_all
  have w: "DayWithinYear d = ?w"
    unfolding DayWithinYear_def y by (simp add: d)
  have mm: "MonthFromDay d = m"
    using month_cases[OF m] L fit dt
    unfolding MonthFromDay_def w y Let_def
    by (elim disjE) (simp_all add: monthStart_def)
  have "DateFromDay d = dt"
    by (simp add: DateFromDay_def w y mm)
  then show ?thesis using y mm by simp
qed

lemma first_of_month:
  "DateFromDay (d - DateFromDay d + 1) = 1
   \<and> MonthFromDay (d - DateFromDay d + 1) = MonthFromDay d
   \<and> YearFromDay (d - DateFromDay d + 1) = YearFromDay d"
proof -
  let ?y = "YearFromDay d" and ?m = "MonthFromDay d"
  have r: "0 \<le> ?m" "?m \<le> 11" using MonthFromDay_range[of d] by simp_all
  have e: "d - DateFromDay d + 1 = DayFromYear ?y + monthStart (InLeapYear ?y) ?m + 1 - 1"
    by (simp add: DateFromDay_def DayWithinYear_def)
  have fit: "monthStart (InLeapYear ?y) ?m + 1 - 1
      < (if ?m = 11 then 365 + InLeapYear ?y else monthStart (InLeapYear ?y) (?m + 1))"
    using month_cases[OF r] InLeapYear_cases[of ?y]
    by (elim disjE) (simp_all add: monthStart_def)
  show ?thesis
    using civil_unique[OF e r _ fit] by simp
qed

lemma WeekDay_range: "0 \<le> WeekDay d \<and> WeekDay d \<le> 6"
  by (simp add: WeekDay_def)

lemma most_recent_sunday: "WeekDay (d - WeekDay d) = 0"
  unfolding WeekDay_def by presburger

lemma MakeDay_civil:
  assumes "0 \<le> m" and "m \<le> 11" and "1 \<le> dt" and "dt \<le> 28"
  shows "YearFromDay (MakeDay y m dt) = y \<and> MonthFromDay (MakeDay y m dt) = m
     \<and> DateFromDay (MakeDay y m dt) = dt"
proof -
  have dm: "m div 12 = 0" "m mod 12 = m" using assms by simp_all
  have e: "MakeDay y m dt = DayFromYear y + monthStart (InLeapYear y) m + dt - 1"
    by (simp add: MakeDay_def dm)
  have fit: "monthStart (InLeapYear y) m + dt - 1
      < (if m = 11 then 365 + InLeapYear y else monthStart (InLeapYear y) (m + 1))"
    using month_cases[OF assms(1,2)] InLeapYear_cases[of y] assms(4)
    by (elim disjE) (simp_all add: monthStart_def)
  show ?thesis
    using civil_unique[OF e assms(1,2,3) fit] .
qed

lemma Day_plus_within: "0 \<le> r \<Longrightarrow> r < msPerDay \<Longrightarrow> Day (d * msPerDay + r) = d"
  using msPerDay_pos by (simp add: Day_def div_pos_pos_trivial)

section \<open>Recurrence materializer (\<^verbatim>\<open>processRecurringTransactions\<close> in \<^verbatim>\<open>App.tsx\<close>)\<close>

text \<open>The switch on the frequency that computes \<^verbatim>\<open>nextDate\<close>.\<close>

definition nextDate :: "host \<Rightarrow> string \<Rightarrow> int \<Rightarrow> int" where
  "nextDate h frequency currentNextOccurrence =
     (if frequency = ''daily'' then addDays h currentNextOccurrence 1
      else if frequency = ''weekly'' then addDays h currentNextOccurrence 7
      else if frequency = ''monthly'' then addMonths h currentNextOccurrence 1
      else if frequency = ''yearly'' then addYears h currentNextOccurrence 1
      else addDays h currentNextOccurrence 1)"

definition newTxId :: "recurringTransaction \<Rightarrow> int \<Rightarrow> string" where
  "newTxId rt currentNextOccurrence =
     rt_id rt @ ''-'' @ isoDateString (toISODate currentNextOccurrence)"

definition newTx :: "recurringTransaction \<Rightarrow> int \<Rightarrow> transaction" where
  "newTx rt currentNextOccurrence =
     \<lparr> tx_id = newTxId rt currentNextOccurrence,
       tx_description = rt_description rt,
       tx_amount = rt_amount rt,
       tx_type = rt_type rt,
       tx_date = toISODate currentNextOccurrence,
       tx_category = rt_category rt,
       tx_notes = rt_notes rt,
       tx_currencyCode = rt_currencyCode rt \<rparr>"

lemma nextDate_ge: "t + msPerDay \<le> nextDate h f t"
  using addMonths_ge[of t h] addYears_ge[of t h] msPerDay_pos
  by (simp add: nextDate_def addDays_eq)

text \<open>
  The \<^verbatim>\<open>while\<close> loop of one rule. It returns the final \<^verbatim>\<open>currentNextOccurrence\<close>
  and the array \<^verbatim>\<open>newTransactions\<close>, to which the loop pushes. The test for an id
  that is already there looks at \<^verbatim>\<open>currentTransactions\<close> only.
\<close>

function whileDue ::
  "host \<Rightarrow> int \<Rightarrow> recurringTransaction \<Rightarrow> transaction list \<Rightarrow> int \<Rightarrow> transaction list
     \<Rightarrow> int \<times> transaction list" where
  "whileDue h today rt currentTransactions currentNextOccurrence newTransactions =
     (if currentNextOccurrence \<le> today
      then whileDue h today rt currentTransactions
             (nextDate h (rt_frequency rt) currentNextOccurrence)
             (if \<not> list_ex (\<lambda>tx. tx_id tx = newTxId rt currentNextOccurrence) currentTransactions
              then newTransactions @ [newTx rt currentNextOccurrence]
              else newTransactions)
      else (currentNextOccurrence, newTransactions))"
  by pat_completeness auto
termination
proof (relation "measure (\<lambda>(h, today, rt, txs, cur, new). nat (today + 1 - cur))")
  show "wf (measure (\<lambda>(h, today, rt, txs, cur, new). nat (today + 1 - cur)))"
    by simp
next
  fix h :: host and today :: int and rt :: recurringTransaction
    and currentTransactions :: "transaction list" and currentNextOccurrence :: int
    and newTransactions :: "transaction list"
  assume "currentNextOccurrence \<le> today"
  then show "((h, today, rt, currentTransactions,
        nextDate h (rt_frequency rt) currentNextOccurrence,
        if \<not> list_ex (\<lambda>tx. tx_id tx = newTxId rt currentNextOccurrence) currentTransactions
        then newTransactions @ [newTx rt currentNextOccurrence] else newTransactions),
       (h, today, rt, currentTransactions, currentNextOccurrence, newTransactions))
      \<in> measure (\<lambda>(h, today, rt, txs, cur, new). nat (today + 1 - cur))"
    using nextDate_ge[of currentNextOccurrence h "rt_frequency rt"] msPerDay_pos
    by simp
qed

declare whileDue.simps [simp del]

text \<open>
  The body of the \<^verbatim>\<open>map\<close> callback for one rule: the updated rule, the array
  \<^verbatim>\<open>newTransactions\<close> after it, and whether the rule was due.
\<close>

definition processRule ::
  "host \<Rightarrow> int \<Rightarrow> transaction list \<Rightarrow> recurringTransaction \<Rightarrow> transaction list
     \<Rightarrow> recurringTransaction \<times> transaction list \<times> bool" where
  "processRule h today currentTransactions rt newTransactions =
     (let start = setHours0 h (parseDateOnly (rt_nextOccurrenceDate rt));
          due = (start \<le> today);
          (currentNextOccurrence, newTransactions') =
             (if due then whileDue h today rt currentTransactions start newTransactions
              else (start, newTransactions))
      in (rt\<lparr>rt_nextOccurrenceDate := toISODate currentNextOccurrence\<rparr>,
          newTransactions', due))"

text \<open>
  The \<^verbatim>\<open>map\<close> over the rules, threading \<^verbatim>\<open>newTransactions\<close> and
  \<^verbatim>\<open>anyRecurringNextOccurrenceChanged\<close> through the calls in order.
\<close>

fun processRules ::
  "host \<Rightarrow> int \<Rightarrow> transaction list \<Rightarrow> recurringTransaction list \<Rightarrow> transaction list \<Rightarrow> bool
     \<Rightarrow> recurringTransaction list \<times> transaction list \<times> bool" where
  "processRules h today currentTransactions [] newTransactions changed =
     ([], newTransactions, changed)"
| "processRules h today currentTransactions (rt # rts) newTransactions changed =
     (let (rt', newTransactions', due) =
            processRule h today currentTransactions rt newTransactions;
          (rts', newTransactions'', changed') =
            processRules h today currentTransactions rts newTransactions' (changed \<or> due)
      in (rt' # rts', newTransactions'', changed'))"

record materialized =
  newTransactions :: "transaction list"
  updatedRecurringTxs :: "recurringTransaction list"
  anyRecurringNextOccurrenceChanged :: bool

definition processRecurringTransactions ::
  "host \<Rightarrow> recurringTransaction list \<Rightarrow> transaction list \<Rightarrow> materialized" where
  "processRecurringTransactions h currentRecurringTransactions currentTransactions =
     (let today = setHours0 h (now h);
          (rts, new, changed) =
            processRules h today currentTransactions currentRecurringTransactions [] False
      in \<lparr> newTransactions = new,
           updatedRecurringTxs = rts,
           anyRecurringNextOccurrenceChanged = changed \<rparr>)"

section \<open>The occurrences of a rule on a host whose zone is UTC\<close>

text \<open>
  On a host whose local zone is UTC every Date of the materializer is a UTC midnight, and
  the loop can be read on day numbers. \<open>stepDay\<close> is one step of the loop's switch,
  \<open>occurrenceDays f d today\<close> are the days \<open>d\<close>, \<open>stepDay f d\<close>, ... up to
  \<open>today\<close>, and \<open>nextAfter f d today\<close> is the first of these days after
  \<open>today\<close>.
\<close>

definition utc :: host where
  "utc = \<lparr> now = 0, localTZA = 0 \<rparr>"

definition stepDay :: "string \<Rightarrow> int \<Rightarrow> int" where
  "stepDay frequency d = toISODate (nextDate utc frequency (parseDateOnly d))"

lemma parseDateOnly_eq: "parseDateOnly d = d * msPerDay"
  by (simp add: parseDateOnly_def MakeDate_def)

lemma Day_midnight: "Day (d * msPerDay) = d"
  using msPerDay_pos by (simp add: Day_def)

lemma TimeWithinDay_midnight: "TimeWithinDay (d * msPerDay) = 0"
  by (simp add: TimeWithinDay_def)

lemma setHours0_utc: "localTZA h = 0 \<Longrightarrow> setHours0 h t = Day t * msPerDay"
  by (simp add: setHours0_def UTC_def LocalTime_def MakeDate_def)

lemma nextDate_midnight:
  assumes "localTZA h = 0"
  shows "nextDate h f (d * msPerDay) = stepDay f d * msPerDay"
proof -
  have a: "nextDate h f t = nextDate utc f t" for t
    using assms
    by (simp add: nextDate_def addDays_def addMonths_def addYears_def setDate_def setMonth_def
        setFullYear_def getDate_def getMonth_def getFullYear_def LocalTime_def UTC_def utc_def)
  have b: "\<exists>n. nextDate utc f (d * msPerDay) = n * msPerDay"
  proof -
    have "addDays utc (d * msPerDay) k = (d + k) * msPerDay" for k
      by (simp add: addDays_eq algebra_simps)
    moreover have "addMonths utc (d * msPerDay) 1 =
        MakeDay (YearFromDay d) (MonthFromDay d + 1) (DateFromDay d) * msPerDay"
      by (simp add: addMonths_def setMonth_def getMonth_def LocalTime_def UTC_def utc_def
          Day_midnight TimeWithinDay_midnight MakeDate_def)
    moreover have "addYears utc (d * msPerDay) 1 =
        MakeDay (YearFromDay d + 1) (MonthFromDay d) (DateFromDay d) * msPerDay"
      by (simp add: addYears_def setFullYear_def getFullYear_def LocalTime_def UTC_def utc_def
          Day_midnight TimeWithinDay_midnight MakeDate_def)
    ultimately show ?thesis
      by (auto simp: nextDate_def)
  qed
  then obtain n where n: "nextDate utc f (d * msPerDay) = n * msPerDay" by blast
  have "stepDay f d = n"
    by (simp add: stepDay_def parseDateOnly_eq n toISODate_def Day_midnight)
  then show ?thesis using a n by simp
qed

lemma stepDay_cases:
  "stepDay f d =
     (if f = ''daily'' then d + 1
      else if f = ''weekly'' then d + 7
      else if f = ''monthly'' then MakeDay (YearFromDay d) (MonthFromDay d + 1) (DateFromDay d)
      else if f = ''yearly'' then MakeDay (YearFromDay d + 1) (MonthFromDay d) (DateFromDay d)
      else d + 1)"
proof -
  have "addDays utc (d * msPerDay) k = (d + k) * msPerDay" for k
    by (simp add: addDays_eq algebra_simps)
  moreover have "addMonths utc (d * msPerDay) 1 =
      MakeDay (YearFromDay d) (MonthFromDay d + 1) (DateFromDay d) * msPerDay"
    by (simp add: addMonths_def setMonth_def getMonth_def LocalTime_def UTC_def utc_def
        Day_midnight TimeWithinDay_midnight MakeDate_def)
  moreover have "addYears utc (d * msPerDay) 1 =
      MakeDay (YearFromDay d + 1) (MonthFromDay d) (DateFromDay d) * msPerDay"
    by (simp add: addYears_def setFullYear_def getFullYear_def LocalTime_def UTC_def utc_def
        Day_midnight TimeWithinDay_midnight MakeDate_def)
  ultimately show ?thesis
    by (simp add: stepDay_def parseDateOnly_eq nextDate_def toISODate_def Day_midnight)
qed

lemma stepDay_gt: "d < stepDay f d"
proof -
  have "d * msPerDay + msPerDay \<le> nextDate utc f (d * msPerDay)"
    by (rule nextDate_ge)
  then have "(d + 1) * msPerDay \<le> stepDay f d * msPerDay"
    using nextDate_midnight[of utc f d] by (simp add: utc_def algebra_simps)
  then have "d + 1 \<le> stepDay f d"
    using msPerDay_pos by simp
  then show ?thesis by simp
qed

function occurrenceDays :: "string \<Rightarrow> int \<Rightarrow> int \<Rightarrow> int list" where
  "occurrenceDays f d today = (if d \<le> today then d # occurrenceDays f (stepDay f d) today else [])"
  by pat_completeness auto
termination
proof (relation "measure (\<lambda>(f, d, today). nat (today + 1 - d))")
  show "wf (measure (\<lambda>(f, d, today). nat (today + 1 - d)))"
    by simp
next
  fix f :: string and d today :: int
  assume "d \<le> today"
  then show "((f, stepDay f d, today), (f, d, today))
      \<in> measure (\<lambda>(f, d, today). nat (today + 1 - d))"
    using stepDay_gt[of d f] by simp
qed

function nextAfter :: "string \<Rightarrow> int \<Rightarrow> int \<Rightarrow> int" where
  "nextAfter f d today = (if d \<le> today then nextAfter f (stepDay f d) today else d)"
  by pat_completeness auto
termination
proof (relation "measure (\<lambda>(f, d, today). nat (today + 1 - d))")
  show "wf (measure (\<lambda>(f, d, today). nat (today + 1 - d)))"
    by simp
next
  fix f :: string and d today :: int
  assume "d \<le> today"
  then show "((f, stepDay f d, today), (f, d, today))
      \<in> measure (\<lambda>(f, d, today). nat (today + 1 - d))"
    using stepDay_gt[of d f] by simp
qed

declare occurrenceDays.simps [simp del] nextAfter.simps [simp del]

section \<open>The merge of the new transactions (the effect in \<^verbatim>\<open>App.tsx\<close>)\<close>

text \<open>
  \<^verbatim>\<open>Array.prototype.sort\<close> is stable, and for a consistent comparator it returns the
  one stable sorted permutation of the array: insertion sort. The comparator of the
  effect compares the dates and then the ids with \<^verbatim>\<open>String.prototype.localeCompare\<close>,
  whose order is that of the host's locale: it is a parameter.
\<close>

fun insertSorted :: "('a \<Rightarrow> 'a \<Rightarrow> int) \<Rightarrow> 'a \<Rightarrow> 'a list \<Rightarrow> 'a list" where
  "insertSorted cmp x [] = [x]"
| "insertSorted cmp x (y # ys) =
     (if cmp x y \<le> 0 then x # y # ys else y # insertSorted cmp x ys)"

definition arraySort :: "('a \<Rightarrow> 'a \<Rightarrow> int) \<Rightarrow> 'a list \<Rightarrow> 'a list" where
  "arraySort cmp xs = foldr (insertSorted cmp) xs []"

definition compareTransactions ::
  "(string \<Rightarrow> string \<Rightarrow> int) \<Rightarrow> transaction \<Rightarrow> transaction \<Rightarrow> int" where
  "compareTransactions localeCompare a b =
     (let dateComparison = parseDateOnly (tx_date a) - parseDateOnly (tx_date b)
      in if dateComparison \<noteq> 0 then dateComparison
         else localeCompare (tx_id a) (tx_id b))"

text \<open>The updater passed to \<^verbatim>\<open>setTransactions\<close>.\<close>

definition mergeNewTransactions ::
  "(string \<Rightarrow> string \<Rightarrow> int) \<Rightarrow> transaction list \<Rightarrow> transaction list \<Rightarrow> transaction list" where
  "mergeNewTransactions localeCompare generated prevTxs =
     (let uniqueNewTransactions =
            filter (\<lambda>newTx. \<not> list_ex (\<lambda>prevTx. tx_id prevTx = tx_id newTx) prevTxs)
              generated
      in arraySort (compareTransactions localeCompare) (prevTxs @ uniqueNewTransactions))"

record appState =
  st_transactions :: "transaction list"
  st_recurringTransactions :: "recurringTransaction list"

definition materializationEffect ::
  "(string \<Rightarrow> string \<Rightarrow> int) \<Rightarrow> host \<Rightarrow> appState \<Rightarrow> appState" where
  "materializationEffect localeCompare h st =
     (if st_recurringTransactions st \<noteq> []
      then
        (let r = processRecurringTransactions h (st_recurringTransactions st)
                   (st_transactions st)
         in \<lparr> st_transactions =
                (if newTransactions r \<noteq> []
                 then mergeNewTransactions localeCompare (newTransactions r)
                        (st_transactions st)
                 else st_transactions st),
              st_recurringTransactions =
                (if anyRecurringNextOccurrenceChanged r then updatedRecurringTxs r
                 else st_recurringTransactions st) \<rparr>)
      else st)"

text \<open>
  A sequence of materialization cycles: the effect run at one instant after the other.
\<close>

fun materializationCycles ::
  "(string \<Rightarrow> string \<Rightarrow> int) \<Rightarrow> host list \<Rightarrow> appState \<Rightarrow> appState" where
  "materializationCycles lc [] st = st"
| "materializationCycles lc (h # hs) st =
     materializationCycles lc hs (materializationEffect lc h st)"

text \<open>
  The order of the code units of two strings, as a comparator: the instance of
  \<^verbatim>\<open>localeCompare\<close> used in the examples.
\<close>

fun codeUnitCompare :: "string \<Rightarrow> string \<Rightarrow> int" where
  "codeUnitCompare [] [] = 0"
| "codeUnitCompare [] (y # ys) = -1"
| "codeUnitCompare (x # xs) [] = 1"
| "codeUnitCompare (x # xs) (y # ys) =
     (if (of_char x :: nat) < of_char y then -1
      else if (of_char y :: nat) < of_char x then 1
      else codeUnitCompare xs ys)"

section \<open>Summary and budget evaluator (\<^verbatim>\<open>SummaryDashboard.tsx\<close>)\<close>





text \<open>
  \<^verbatim>\<open>getPeriodTransactions\<close>. \<open>today\<close> is the UTC day of the current instant
  (\<^verbatim>\<open>now.toISOString().split('T')[0]\<close>), compared with the stored date string; the
  start of the week and of the month are local midnights, compared with the local midnight
  of the day of the parsed date string.
\<close>

definition getPeriodTransactions :: "host \<Rightarrow> transaction list \<Rightarrow> string \<Rightarrow> transaction list" where
  "getPeriodTransactions h transactions period =
     (let today = toISODate (now h);
          startOfWeek = setHours0 h (setDate h (now h) (getDate h (now h) - getDay h (now h)));
          startOfMonth =
            setHours0 h (newDateLocal h (getFullYear h (now h)) (getMonth h (now h)) 1)
      in filter
           (\<lambda>tx. let txDate = setHours0 h (parseDateOnly (tx_date tx))
                 in if period = ''daily'' then tx_date tx = today
                    else if period = ''weekly'' then txDate \<ge> startOfWeek
                    else if period = ''monthly'' then txDate \<ge> startOfMonth
                    else False)
           transactions)"

text \<open>
  The arithmetic of \<^verbatim>\<open>getBudgetAlerts\<close> is the arithmetic of JavaScript Numbers:
  IEEE 754 binary64, every operation rounded to the nearest value, ties to the even
  significand. A Number is \<open>NaN\<close>, one of the two infinities, the negative zero, or a
  finite value; \<open>Val 0\<close> is the positive zero.
\<close>

datatype number = NaN | Infinity | NegInfinity | NegZero | Val rat

text \<open>
  \<open>pow2 e\<close> is the power of two of an integer exponent, \<open>exponentOf x\<close> the exponent
  of the binade of a positive \<open>x\<close> (the integer part of its binary logarithm), and
  \<open>roundHalfEven\<close> the nearest integer, the even one of two that are equally near.
\<close>

definition pow2 :: "int \<Rightarrow> rat" where
  "pow2 e = (if 0 \<le> e then 2 ^ nat e else 1 / 2 ^ nat (- e))"

function exponentOf :: "rat \<Rightarrow> int" where
  "exponentOf x =
     (if 2 \<le> x then exponentOf (x / 2) + 1
      else if 0 < x \<and> x < 1 then exponentOf (2 * x) - 1
      else 0)"
  by pat_completeness auto
termination
proof (relation "measure (\<lambda>x. if 1 \<le> x then nat \<lfloor>x\<rfloor> else nat \<lceil>1 / x\<rceil>)")
  show "wf (measure (\<lambda>x::rat. if 1 \<le> x then nat \<lfloor>x\<rfloor> else nat \<lceil>1 / x\<rceil>))"
    by simp
next
  fix x :: rat
  assume a: "2 \<le> x"
  have "\<lfloor>x / 2\<rfloor> \<le> \<lfloor>x - 1\<rfloor>"
    using a by (intro floor_mono) simp
  then have "\<lfloor>x / 2\<rfloor> < \<lfloor>x\<rfloor>"
    by simp
  moreover have "1 \<le> \<lfloor>x\<rfloor>"
    using a by simp
  ultimately show "(x / 2, x) \<in> measure (\<lambda>x. if 1 \<le> x then nat \<lfloor>x\<rfloor> else nat \<lceil>1 / x\<rceil>)"
    using a by simp
next
  fix x :: rat
  assume a: "\<not> 2 \<le> x" "0 < x \<and> x < 1"
  have "1 < 1 / x"
    using a by simp
  then have c: "2 \<le> \<lceil>1 / x\<rceil>"
    by (simp add: le_ceiling_iff)
  show "(2 * x, x) \<in> measure (\<lambda>x. if 1 \<le> x then nat \<lfloor>x\<rfloor> else nat \<lceil>1 / x\<rceil>)"
  proof (cases "1 \<le> 2 * x")
    case True
    have "2 * x < 2"
      using a by simp
    then have "\<lfloor>2 * x\<rfloor> < 2"
      by (simp add: floor_less_iff)
    then have "nat \<lfloor>2 * x\<rfloor> < nat \<lceil>1 / x\<rceil>"
      using c by linarith
    then show ?thesis
      using True a by simp
  next
    case False
    then have "2 \<le> 1 / x"
      using a by (simp add: field_simps)
    then have "1 / (2 * x) \<le> 1 / x - 1"
      by (simp add: field_simps)
    then have "\<lceil>1 / (2 * x)\<rceil> \<le> \<lceil>1 / x - 1\<rceil>"
      by (rule ceiling_mono)
    then have "\<lceil>1 / (2 * x)\<rceil> < \<lceil>1 / x\<rceil>"
      by simp
    then have "nat \<lceil>1 / (2 * x)\<rceil> < nat \<lceil>1 / x\<rceil>"
      using c by linarith
    then show ?thesis
      using False a by simp
  qed
qed

declare exponentOf.simps [simp del]

definition roundHalfEven :: "rat \<Rightarrow> int" where
  "roundHalfEven x =
     (let n = \<lfloor>x\<rfloor>; r = x - of_int n
      in if r < 1 / 2 then n else if 1 / 2 < r then n + 1 else if even n then n else n + 1)"

text \<open>
  The Number of a sign and an exact magnitude \<open>x \<ge> 0\<close>. The finite binary64 values of
  the binade of exponent \<open>e\<close> are the multiples of \<open>pow2 (e - 52)\<close>; below the exponent
  -1022 (the subnormal values) the spacing stays \<open>pow2 (- 1074)\<close>. A magnitude that
  rounds to \<open>2 ^ 1024\<close> or more gives an infinity, one that rounds to zero a zero of the
  sign. \<open>numberOf x\<close> is the Number value for the exact \<open>x\<close>.
\<close>

definition numberFor :: "bool \<Rightarrow> rat \<Rightarrow> number" where
  "numberFor neg x =
     (let e = max (exponentOf x) (- 1022);
          ulp = pow2 (e - 52);
          v = of_int (roundHalfEven (x / ulp)) * ulp
      in if 2 ^ 1024 \<le> v then (if neg then NegInfinity else Infinity)
         else if v = 0 then (if neg then NegZero else Val 0)
         else Val (if neg then - v else v))"

definition numberOf :: "rat \<Rightarrow> number" where
  "numberOf x = numberFor (x < 0) \<bar>x\<bar>"

fun negative :: "number \<Rightarrow> bool" where
  "negative NegInfinity = True"
| "negative NegZero = True"
| "negative (Val r) = (r < 0)"
| "negative _ = False"

fun magnitude :: "number \<Rightarrow> rat" where
  "magnitude (Val r) = \<bar>r\<bar>"
| "magnitude _ = 0"

fun mathValue :: "number \<Rightarrow> rat" where
  "mathValue (Val r) = r"
| "mathValue _ = 0"

definition isInfinite :: "number \<Rightarrow> bool" where
  "isInfinite x = (x = Infinity \<or> x = NegInfinity)"

definition isZero :: "number \<Rightarrow> bool" where
  "isZero x = (x = Val 0 \<or> x = NegZero)"

text \<open>
  The operators \<^verbatim>\<open>+\<close>, \<^verbatim>\<open>*\<close> and \<^verbatim>\<open>/\<close> on Numbers. The sum of two negative zeros
  is the negative zero, and every other exact sum that is zero gives the positive zero;
  the sign of a product and of a quotient is negative when the signs of the operands
  differ, also when the result is a zero or an infinity.
\<close>

definition numberAdd :: "number \<Rightarrow> number \<Rightarrow> number" where
  "numberAdd x y =
     (if x = NaN \<or> y = NaN then NaN
      else if (x = Infinity \<and> y = NegInfinity) \<or> (x = NegInfinity \<and> y = Infinity) then NaN
      else if isInfinite x then x
      else if isInfinite y then y
      else if x = NegZero \<and> y = NegZero then NegZero
      else numberOf (mathValue x + mathValue y))"

definition numberMultiply :: "number \<Rightarrow> number \<Rightarrow> number" where
  "numberMultiply x y =
     (if x = NaN \<or> y = NaN then NaN
      else if isInfinite x \<or> isInfinite y then
        (if isZero x \<or> isZero y then NaN
         else if negative x = negative y then Infinity else NegInfinity)
      else numberFor (negative x \<noteq> negative y) (magnitude x * magnitude y))"

definition numberDivide :: "number \<Rightarrow> number \<Rightarrow> number" where
  "numberDivide x y =
     (if x = NaN \<or> y = NaN then NaN
      else if isInfinite x then
        (if isInfinite y then NaN
         else if negative x = negative y then Infinity else NegInfinity)
      else if isInfinite y then (if negative x = negative y then Val 0 else NegZero)
      else if isZero y then
        (if isZero x then NaN
         else if negative x = negative y then Infinity else NegInfinity)
      else numberFor (negative x \<noteq> negative y) (magnitude x / magnitude y))"

text \<open>
  The comparison of two Numbers is undefined (\<open>None\<close>) when one of them is
  \<open>NaN\<close>; the two zeros are equal. \<^verbatim>\<open>x > y\<close> holds when \<open>y\<close> is less than \<open>x\<close>,
  and \<^verbatim>\<open>x >= y\<close> when the comparison of \<open>x\<close> with \<open>y\<close> is defined and false.
\<close>

definition numberLessThan :: "number \<Rightarrow> number \<Rightarrow> bool option" where
  "numberLessThan x y =
     (if x = NaN \<or> y = NaN then None
      else if x = y then Some False
      else if isZero x \<and> isZero y then Some False
      else if x = Infinity then Some False
      else if y = Infinity then Some True
      else if y = NegInfinity then Some False
      else if x = NegInfinity then Some True
      else Some (mathValue x < mathValue y))"

definition numberGreater :: "number \<Rightarrow> number \<Rightarrow> bool" where
  "numberGreater x y = (numberLessThan y x = Some True)"

definition numberGreaterEq :: "number \<Rightarrow> number \<Rightarrow> bool" where
  "numberGreaterEq x y = (numberLessThan x y = Some False)"

text \<open>
  \<^verbatim>\<open>getBudgetAlerts\<close>. The Number that the program holds for an amount of a record
  is \<open>numberOf\<close> of the amount: the amount itself when it is a binary64 value, and the
  value nearest to it otherwise, which is what \<^verbatim>\<open>Number(amount)\<close> in the forms and
  \<^verbatim>\<open>Number(e.target.value)\<close> of the threshold slider make of a decimal. The percentage
  is computed before the guard \<^verbatim>\<open>budget.amount > 0\<close> is tested; a division by zero
  does not throw in JavaScript, and the guard discards its result. The parameter
  \<^verbatim>\<open>currencyCode\<close> is not used by the code.
\<close>

record alert =
  a_category :: string
  a_spent :: number
  a_budget :: number
  a_percentage :: number

definition budgetSpent :: "summaryData \<Rightarrow> budget \<Rightarrow> number" where
  "budgetSpent currentSummary budget =
     foldl (\<lambda>sum cb. numberAdd sum (numberOf (cb_amount cb))) (Val 0)
       (filter (\<lambda>cb. cb_category cb = b_category budget) (categoryBreakdown currentSummary))"

definition budgetAlertStep :: "rat \<Rightarrow> summaryData \<Rightarrow> alert list \<Rightarrow> budget \<Rightarrow> alert list" where
  "budgetAlertStep budgetAlertPercentage currentSummary alerts budget =
     (let spent = budgetSpent currentSummary budget;
          percentage = numberMultiply (numberDivide spent (numberOf (b_amount budget))) (Val 100)
      in if numberGreater (numberOf (b_amount budget)) (Val 0)
            \<and> numberGreaterEq percentage (numberOf budgetAlertPercentage)
         then alerts @ [\<lparr> a_category = b_category budget, a_spent = spent,
                           a_budget = numberOf (b_amount budget), a_percentage = percentage \<rparr>]
         else alerts)"

definition getBudgetAlerts ::
  "rat \<Rightarrow> summaryData \<Rightarrow> budget list \<Rightarrow> string \<Rightarrow> alert list" where
  "getBudgetAlerts budgetAlertPercentage currentSummary currentBudgets currencyCode =
     foldl (budgetAlertStep budgetAlertPercentage currentSummary) [] currentBudgets"

section \<open>Currency converter (\<^verbatim>\<open>handleConvert\<close> in \<^verbatim>\<open>CurrencyConverter.tsx\<close>)\<close>



section \<open>AI service (\<^verbatim>\<open>geminiService.ts\<close>)\<close>

text \<open>
  Both functions are \<^verbatim>\<open>async\<close>: the promise they return is fulfilled with a value
  (\<open>Inr\<close>) or rejected with an error (\<open>Inl\<close>). What lies outside the repository
  is a parameter: the environment variable \<^verbatim>\<open>API_KEY\<close>, the constant
  \<^verbatim>\<open>DEFAULT_CATEGORIES\<close>, the remote call \<^verbatim>\<open>ai.models.generateContent\<close>, which
  is rejected with an error or fulfilled with a response whose \<^verbatim>\<open>text\<close> is a string or
  undefined (\<open>None\<close>), and \<^verbatim>\<open>JSON.parse\<close>. The prompt is represented by the values
  that the code interpolates into it. A remote call that never settles is outside this
  model.
\<close>

datatype jsError = MissingApiKey | ApiError string | TypeError | SyntaxError

datatype json =
    JNull
  | JBool bool
  | JNumber rat
  | JString string
  | JArray "json list"
  | JObject "(string \<times> json) list"

datatype request =
    CategorizePrompt "string list" string
  | InsightsPrompt summaryData "budget list" string

record gemini =
  apiKey :: "string option"
  defaultCategories :: "string list"
  generateContent :: "request \<Rightarrow> jsError + string option"
  jsonParse :: "string \<Rightarrow> jsError + json"

text \<open>\<^verbatim>\<open>getGeminiClient\<close> throws when the key is undefined or empty.\<close>

definition getGeminiClient :: "gemini \<Rightarrow> jsError + string" where
  "getGeminiClient g =
     (case apiKey g of
        None \<Rightarrow> Inl MissingApiKey
      | Some k \<Rightarrow> if k = [] then Inl MissingApiKey else Inr k)"

text \<open>
  \<^verbatim>\<open>trim\<close> removes the white space and the line terminators at both ends of a
  string. The characters of this model are the code units below 256: of these the tab,
  the line feed, the vertical tab, the form feed, the carriage return, the space and the
  no-break space U+00A0 are removed. The other Unicode spaces and U+FEFF are not
  characters of the model.
\<close>

definition isWhiteSpace :: "char \<Rightarrow> bool" where
  "isWhiteSpace c =
     (c = CHR '' '' \<or> c = CHR 0x09 \<or> c = CHR 0x0A \<or> c = CHR 0x0B \<or> c = CHR 0x0C
      \<or> c = CHR 0x0D \<or> c = CHR 0xA0)"

definition trim :: "string \<Rightarrow> string" where
  "trim s = rev (dropWhile isWhiteSpace (rev (dropWhile isWhiteSpace s)))"

text \<open>
  \<^verbatim>\<open>result.category\<close>: a TypeError on \<^verbatim>\<open>null\<close>, the member of an object, and
  undefined on every other value.
\<close>

fun getCategory :: "json \<Rightarrow> jsError + json option" where
  "getCategory JNull = Inl TypeError"
| "getCategory (JObject members) = Inr (map_of members ''category'')"
| "getCategory _ = Inr None"

fun truthy :: "json \<Rightarrow> bool" where
  "truthy JNull = False"
| "truthy (JBool b) = b"
| "truthy (JNumber n) = (n \<noteq> 0)"
| "truthy (JString s) = (s \<noteq> [])"
| "truthy (JArray _) = True"
| "truthy (JObject _) = True"

text \<open>The body of the \<^verbatim>\<open>try\<close> block of \<^verbatim>\<open>categorizeTransaction\<close>.\<close>

definition categorizeAttempt :: "gemini \<Rightarrow> string \<Rightarrow> jsError + json" where
  "categorizeAttempt g description =
     (case getGeminiClient g of
        Inl e \<Rightarrow> Inl e
      | Inr ai \<Rightarrow>
          (case generateContent g (CategorizePrompt (defaultCategories g) description) of
             Inl e \<Rightarrow> Inl e
           | Inr None \<Rightarrow> Inl TypeError
           | Inr (Some text) \<Rightarrow>
               (case jsonParse g (trim text) of
                  Inl e \<Rightarrow> Inl e
                | Inr result \<Rightarrow>
                    (case getCategory result of
                       Inl e \<Rightarrow> Inl e
                     | Inr None \<Rightarrow> Inr (JString ''Others'')
                     | Inr (Some category) \<Rightarrow>
                         Inr (if truthy category then category else JString ''Others'')))))"

definition categorizeTransaction :: "gemini \<Rightarrow> string \<Rightarrow> jsError + json" where
  "categorizeTransaction g description =
     (case categorizeAttempt g description of
        Inl e \<Rightarrow> Inr (JString ''Others'')
      | Inr category \<Rightarrow> Inr category)"

definition insightsAttempt ::
  "gemini \<Rightarrow> summaryData \<Rightarrow> budget list \<Rightarrow> string \<Rightarrow> jsError + string option" where
  "insightsAttempt g summary budgets currencyCode =
     (case getGeminiClient g of
        Inl e \<Rightarrow> Inl e
      | Inr ai \<Rightarrow>
          (case generateContent g (InsightsPrompt summary budgets currencyCode) of
             Inl e \<Rightarrow> Inl e
           | Inr text \<Rightarrow> Inr text))"

definition insightsFallback :: string where
  "insightsFallback =
     ''Could not retrieve spending insights at this time. Please try again later.''"

definition getSpendingInsights ::
  "gemini \<Rightarrow> summaryData \<Rightarrow> budget list \<Rightarrow> string \<Rightarrow> jsError + string option" where
  "getSpendingInsights g summary budgets currencyCode =
     (case insightsAttempt g summary budgets currencyCode of
        Inl e \<Rightarrow> Inr (Some insightsFallback)
      | Inr text \<Rightarrow> Inr text)"

section \<open>Example hosts and rules\<close>

text \<open>
  The instant 2024-03-15T12:00Z on three hosts: one on UTC, one on UTC+3 (Africa/Nairobi)
  and one on UTC-5 (America/Bogota); none of these zones has daylight saving. Day 19723
  is 2024-01-01 and day 19797 is 2024-03-15.
\<close>

definition utcHost :: host where
  "utcHost = \<lparr> now = 1710504000000, localTZA = 0 \<rparr>"

definition nairobiHost :: host where
  "nairobiHost = \<lparr> now = 1710504000000, localTZA = 10800000 \<rparr>"

definition bogotaHost :: host where
  "bogotaHost = \<lparr> now = 1710504000000, localTZA = -18000000 \<rparr>"

text \<open>
  The rule of the example scenario: monthly from 2024-01-01, amount 50, currency USD. Its
  id has the form of the ids that the form creates (\<^verbatim>\<open>Date.now().toString()\<close>).
\<close>

definition gymRule :: recurringTransaction where
  "gymRule =
     \<lparr> rt_id = ''1704067200000'', rt_description = ''Gym'', rt_amount = 50,
       rt_type = Expense, rt_category = ''Health'', rt_frequency = ''monthly'',
       rt_startDate = 19723, rt_nextOccurrenceDate = 19723, rt_notes = None,
       rt_currencyCode = ''USD'' \<rparr>"

text \<open>A daily rule that is due on 2024-03-15, and the transaction it creates that day.\<close>

definition coffeeRule :: recurringTransaction where
  "coffeeRule =
     \<lparr> rt_id = ''1710460800000'', rt_description = ''Coffee'', rt_amount = 3,
       rt_type = Expense, rt_category = ''Food'', rt_frequency = ''daily'',
       rt_startDate = 19797, rt_nextOccurrenceDate = 19797, rt_notes = None,
       rt_currencyCode = ''USD'' \<rparr>"

definition coffeeTx :: transaction where
  "coffeeTx =
     \<lparr> tx_id = ''1710460800000-2024-03-15'', tx_description = ''Coffee'', tx_amount = 3,
       tx_type = Expense, tx_date = 19797, tx_category = ''Food'', tx_notes = None,
       tx_currencyCode = ''USD'' \<rparr>"

text \<open>
  A transaction dated Sunday 2024-03-10 (day 19792), the start of the week of
  2024-03-15, and one dated 2024-03-01 (day 19783), the start of its month.
\<close>

definition sundayTx :: transaction where
  "sundayTx =
     \<lparr> tx_id = ''1710072000000'', tx_description = ''Market'', tx_amount = 20,
       tx_type = Expense, tx_date = 19792, tx_category = ''Food'', tx_notes = None,
       tx_currencyCode = ''USD'' \<rparr>"

definition marchFirstTx :: transaction where
  "marchFirstTx =
     \<lparr> tx_id = ''1709294400000'', tx_description = ''Rent'', tx_amount = 700,
       tx_type = Expense, tx_date = 19783, tx_category = ''Housing'', tx_notes = None,
       tx_currencyCode = ''USD'' \<rparr>"

section \<open>Notions used in the statements and proofs\<close>

text \<open>
  The number that a string of decimal digits denotes: the inverse of \<open>decimal\<close> and
  of \<open>padStart\<close> on digit strings, from which the text of a date determines its day.
\<close>

definition digitsValue :: "string \<Rightarrow> nat" where
  "digitsValue s = foldl (\<lambda>v c. 10 * v + (of_char c - 48)) 0 s"

definition isDigit :: "char \<Rightarrow> bool" where
  "isDigit c = (48 \<le> (of_char c :: nat) \<and> (of_char c :: nat) \<le> 57)"




definition alertFor :: "summaryData \<Rightarrow> budget \<Rightarrow> alert" where
  "alertFor s b =
     \<lparr> a_category = b_category b, a_spent = budgetSpent s b, a_budget = numberOf (b_amount b),
       a_percentage =
         numberMultiply (numberDivide (budgetSpent s b) (numberOf (b_amount b))) (Val 100) \<rparr>"

text \<open>
  A host whose key is set and whose remote call is rejected (a quota error), and a host
  whose call answers with the text of an empty object, which has no category.
\<close>

definition quotaHost :: gemini where
  "quotaHost =
     \<lparr> apiKey = Some ''key'', defaultCategories = [''Food'', ''Others''],
       generateContent = (\<lambda>r. Inl (ApiError ''quota'')),
       jsonParse = (\<lambda>s. Inl SyntaxError) \<rparr>"

definition emptyAnswerHost :: gemini where
  "emptyAnswerHost =
     \<lparr> apiKey = Some ''key'', defaultCategories = [''Food'', ''Others''],
       generateContent = (\<lambda>r. Inr (Some '' {} '')),
       jsonParse = (\<lambda>s. if s = ''{}'' then Inr (JObject []) else Inl SyntaxError) \<rparr>"

text \<open>
  A transaction is materialized from a rule when it carries the id that the rule gives
  to its date. The invariant: every rule's next-occurrence date is after the date of
  every stored transaction materialized from it.
\<close>

definition materializedFrom :: "recurringTransaction \<Rightarrow> transaction \<Rightarrow> bool" where
  "materializedFrom rt tx \<longleftrightarrow> tx_id tx = rt_id rt @ ''-'' @ isoDateString (tx_date tx)"

definition nextAfterMaterialized :: "appState \<Rightarrow> bool" where
  "nextAfterMaterialized st \<longleftrightarrow>
     (\<forall>rt \<in> set (st_recurringTransactions st). \<forall>tx \<in> set (st_transactions st).
        materializedFrom rt tx \<longrightarrow> tx_date tx < rt_nextOccurrenceDate rt)"

section \<open>Facts about the text of a date\<close>

lemma of_char_digitChar: "n < 10 \<Longrightarrow> of_char (digitChar n) = 48 + n"
  by (simp add: digitChar_def)

lemma digitsValue_snoc: "digitsValue (s @ [c]) = 10 * digitsValue s + (of_char c - 48)"
  by (simp add: digitsValue_def)

lemma digitsValue_decimal: "digitsValue (decimal n) = n"
proof (induction n rule: decimal.induct)
  case (1 n)
  show ?case
  proof (cases "n < 10")
    case True
    then have "decimal n = [digitChar n]"
      by (subst decimal.simps) simp
    then show ?thesis
      using True by (simp add: of_char_digitChar digitsValue_def)
  next
    case False
    have "decimal n = decimal (n div 10) @ [digitChar (n mod 10)]"
      using False by (subst decimal.simps) simp
    then show ?thesis
      using "1.IH"[OF False] by (simp add: digitsValue_snoc of_char_digitChar)
  qed
qed

lemma digitsValue_zeros: "digitsValue (replicate k (CHR ''0'') @ s) = digitsValue s"
proof -
  have "foldl (\<lambda>v c. 10 * v + (of_char c - 48)) (0::nat) (replicate k (CHR ''0'')) = 0"
    by (induction k) simp_all
  then show ?thesis by (simp add: digitsValue_def)
qed

lemma digitsValue_padStart: "digitsValue (padStart k (decimal n)) = n"
  by (simp add: padStart_def digitsValue_zeros digitsValue_decimal)

lemma isDigit_digitChar: "n < 10 \<Longrightarrow> isDigit (digitChar n)"
  by (simp add: isDigit_def of_char_digitChar)

lemma decimal_digits: "c \<in> set (decimal n) \<Longrightarrow> isDigit c"
proof (induction n rule: decimal.induct)
  case (1 n)
  show ?case
  proof (cases "n < 10")
    case True
    then have "decimal n = [digitChar n]"
      by (subst decimal.simps) simp
    then show ?thesis using "1.prems" True by (auto simp: isDigit_digitChar)
  next
    case False
    have "decimal n = decimal (n div 10) @ [digitChar (n mod 10)]"
      using False by (subst decimal.simps) simp
    then show ?thesis
      using "1.IH"[OF False] "1.prems" by (auto simp: isDigit_digitChar)
  qed
qed

lemma decimal_nonempty: "decimal n \<noteq> []"
  by (subst decimal.simps) simp

lemma padStart_digits: "c \<in> set (padStart k (decimal n)) \<Longrightarrow> isDigit c"
  using decimal_digits[of c n] by (auto simp: padStart_def isDigit_def)

lemma padStart_nonempty: "padStart k (decimal n) \<noteq> []"
  by (simp add: padStart_def decimal_nonempty)

lemma hd_padStart_digit: "isDigit (hd (padStart k (decimal n)))"
  using padStart_digits[of "hd (padStart k (decimal n))" k n] padStart_nonempty[of k n]
  by simp

lemma length_decimal_lt_10: "n < 10 \<Longrightarrow> length (decimal n) = 1"
  by (subst decimal.simps) simp

lemma length_decimal_lt_100: "n < 100 \<Longrightarrow> length (decimal n) \<le> 2"
proof (cases "n < 10")
  case True
  then show ?thesis by (simp add: length_decimal_lt_10)
next
  case False
  assume "n < 100"
  then have "n div 10 < 10" by simp
  then have "length (decimal (n div 10)) = 1" by (rule length_decimal_lt_10)
  moreover have "decimal n = decimal (n div 10) @ [digitChar (n mod 10)]"
    using False by (subst decimal.simps) simp
  ultimately show ?thesis by simp
qed

lemma length_pad2: "n < 100 \<Longrightarrow> length (padStart 2 (decimal n)) = 2"
  using length_decimal_lt_100[of n] by (simp add: padStart_def)

lemma isoYear_inj:
  assumes "isoYear y1 = isoYear y2"
  shows "y1 = y2"
proof -
  have sign_not_digit: "\<not> isDigit (CHR ''-'')" "\<not> isDigit (CHR ''+'')"
    by (simp_all add: isDigit_def)
  let ?in = "\<lambda>y::int. 0 \<le> y \<and> y \<le> 9999"
  have hd_in: "isDigit (hd (isoYear y))" if "?in y" for y
    using that hd_padStart_digit[of 4 "nat y"] by (simp add: isoYear_def)
  have hd_out: "hd (isoYear y) = (if y < 0 then CHR ''-'' else CHR ''+'')" if "\<not> ?in y" for y
    using that by (simp add: isoYear_def)
  have val_in: "digitsValue (isoYear y) = nat y" if "?in y" for y
    using that by (simp add: isoYear_def digitsValue_padStart)
  have tl_out: "digitsValue (tl (isoYear y)) = nat \<bar>y\<bar>" if "\<not> ?in y" for y
    using that by (simp add: isoYear_def digitsValue_padStart)
  show ?thesis
  proof (cases "?in y1")
    case True
    have in2: "?in y2"
      using hd_in[OF True] hd_out[of y2] assms sign_not_digit by (cases "?in y2") auto
    have "nat y1 = nat y2"
      using val_in[OF True] val_in[OF in2] assms by simp
    then show ?thesis
      using True in2 by linarith
  next
    case False
    then have o2: "\<not> ?in y2"
      using hd_out[OF False] hd_in[of y2] assms sign_not_digit by (cases "?in y2") auto
    have "(y1 < 0) = (y2 < 0)"
      using hd_out[OF False] hd_out[OF o2] assms by (auto split: if_splits)
    moreover have "nat \<bar>y1\<bar> = nat \<bar>y2\<bar>"
      using tl_out[OF False] tl_out[OF o2] assms by simp
    ultimately show ?thesis by linarith
  qed
qed

lemma day_of_parts:
  "d = DayFromYear (YearFromDay d)
       + monthStart (InLeapYear (YearFromDay d)) (MonthFromDay d) + DateFromDay d - 1"
  by (simp add: DateFromDay_def DayWithinYear_def)

lemma isoDateString_inj:
  assumes "isoDateString d1 = isoDateString d2"
  shows "d1 = d2"
proof -
  let ?m = "\<lambda>d. padStart 2 (decimal (nat (MonthFromDay d + 1)))"
  let ?t = "\<lambda>d. padStart 2 (decimal (nat (DateFromDay d)))"
  have lm: "length (?m d) = 2" for d
    using MonthFromDay_range[of d] by (intro length_pad2) linarith
  have lt: "length (?t d) = 2" for d
    using DateFromDay_range[of d] by (intro length_pad2) linarith
  have e: "isoDateString d = isoYear (YearFromDay d) @ (''-'' @ ?m d @ ''-'' @ ?t d)" for d
    by (simp add: isoDateString_def)
  have "isoYear (YearFromDay d1) = isoYear (YearFromDay d2)
      \<and> ''-'' @ ?m d1 @ ''-'' @ ?t d1 = ''-'' @ ?m d2 @ ''-'' @ ?t d2"
    using assms unfolding e
    by (subst (asm) append_eq_append_conv) (simp_all add: lm lt)
  then have y: "YearFromDay d1 = YearFromDay d2"
    and r: "?m d1 @ ''-'' @ ?t d1 = ?m d2 @ ''-'' @ ?t d2"
    using isoYear_inj by auto
  have "?m d1 = ?m d2 \<and> ''-'' @ ?t d1 = ''-'' @ ?t d2"
    using r by (subst (asm) append_eq_append_conv) (simp_all add: lm lt)
  then have "digitsValue (?m d1) = digitsValue (?m d2)" "digitsValue (?t d1) = digitsValue (?t d2)"
    by simp_all
  then have "nat (MonthFromDay d1 + 1) = nat (MonthFromDay d2 + 1)"
    "nat (DateFromDay d1) = nat (DateFromDay d2)"
    by (simp_all only: digitsValue_padStart)
  then have m: "MonthFromDay d1 = MonthFromDay d2" and t: "DateFromDay d1 = DateFromDay d2"
    using MonthFromDay_range[of d1] MonthFromDay_range[of d2]
      DateFromDay_range[of d1] DateFromDay_range[of d2] by linarith+
  show ?thesis
    using day_of_parts[of d1] day_of_parts[of d2] y m t by simp
qed

section \<open>Facts about the materializer\<close>

lemma whileDue_utc_aux:
  assumes tz: "localTZA h = 0"
  shows "f = rt_frequency rt \<Longrightarrow>
     whileDue h (today * msPerDay) rt txs (d * msPerDay) acc =
     (nextAfter f d today * msPerDay,
      acc @ map (\<lambda>d. newTx rt (d * msPerDay))
              (filter (\<lambda>d. \<not> list_ex (\<lambda>tx. tx_id tx = newTxId rt (d * msPerDay)) txs)
                 (occurrenceDays f d today)))"
proof (induction f d today arbitrary: acc rule: occurrenceDays.induct)
  case (1 f d today)
  show ?case
  proof (cases "d \<le> today")
    case True
    then have le: "d * msPerDay \<le> today * msPerDay"
      using msPerDay_pos by simp
    show ?thesis
      using True le "1.IH"[OF True "1.prems"] "1.prems"
      by (subst whileDue.simps, subst occurrenceDays.simps, subst nextAfter.simps)
         (simp add: nextDate_midnight[OF tz])
  next
    case False
    then have nle: "\<not> d * msPerDay \<le> today * msPerDay"
      using msPerDay_pos by simp
    show ?thesis
      using False nle
      by (subst whileDue.simps, subst occurrenceDays.simps, subst nextAfter.simps) simp
  qed
qed

lemmas whileDue_utc = whileDue_utc_aux[OF _ refl]

lemma nextAfter_gt: "today < nextAfter f d today"
proof (induction f d today rule: nextAfter.induct)
  case (1 f d today)
  then show ?case by (subst nextAfter.simps) simp
qed

lemma nextAfter_ge: "d \<le> nextAfter f d today"
proof (induction f d today rule: nextAfter.induct)
  case (1 f d today)
  show ?case
  proof (cases "d \<le> today")
    case True
    then show ?thesis
      using "1.IH" stepDay_gt[of d f] by (subst nextAfter.simps) simp
  next
    case False
    then show ?thesis by (subst nextAfter.simps) simp
  qed
qed

lemma nextAfter_funpow:
  "nextAfter f d today = (stepDay f ^^ length (occurrenceDays f d today)) d"
proof (induction f d today rule: occurrenceDays.induct)
  case (1 f d today)
  show ?case
  proof (cases "d \<le> today")
    case True
    then show ?thesis
      using "1.IH" by (subst nextAfter.simps, subst occurrenceDays.simps) (simp add: funpow_swap1)
  next
    case False
    then show ?thesis by (subst nextAfter.simps, subst occurrenceDays.simps) simp
  qed
qed

lemma occurrenceDays_bounds:
  "x \<in> set (occurrenceDays f d today) \<Longrightarrow> d \<le> x \<and> x \<le> today"
proof (induction f d today rule: occurrenceDays.induct)
  case (1 f d today)
  show ?case
  proof (cases "d \<le> today")
    case True
    then have "x = d \<or> x \<in> set (occurrenceDays f (stepDay f d) today)"
      using "1.prems" by (subst (asm) occurrenceDays.simps) simp
    then show ?thesis
      using "1.IH"[OF True] True stepDay_gt[of d f] by auto
  next
    case False
    then show ?thesis using "1.prems" by (subst (asm) occurrenceDays.simps) simp
  qed
qed

lemma occurrenceDays_sorted: "sorted_wrt (<) (occurrenceDays f d today)"
proof (induction f d today rule: occurrenceDays.induct)
  case (1 f d today)
  show ?case
  proof (cases "d \<le> today")
    case True
    have "\<forall>x \<in> set (occurrenceDays f (stepDay f d) today). d < x"
      using occurrenceDays_bounds[of _ f "stepDay f d" today] stepDay_gt[of d f] by fastforce
    then show ?thesis
      using "1.IH"[OF True] True by (subst occurrenceDays.simps) simp
  next
    case False
    then show ?thesis by (subst occurrenceDays.simps) simp
  qed
qed

lemma occurrenceDays_fixed_period:
  "0 < p \<Longrightarrow> (\<forall>x. stepDay f x = x + p) \<Longrightarrow>
   int (length (occurrenceDays f d today))
     = (if d \<le> today then (today - d) div p + 1 else 0)"
proof (induction f d today rule: occurrenceDays.induct)
  case (1 f d today)
  show ?case
  proof (cases "d \<le> today")
    case True
    have st: "stepDay f d = d + p" using "1.prems" by simp
    have ih: "int (length (occurrenceDays f (d + p) today))
        = (if d + p \<le> today then (today - (d + p)) div p + 1 else 0)"
      using "1.IH"[OF True "1.prems"] st by simp
    have len: "occurrenceDays f d today = d # occurrenceDays f (d + p) today"
      using True st by (subst occurrenceDays.simps) simp
    show ?thesis
    proof (cases "d + p \<le> today")
      case True
      have "today - d = (today - (d + p)) + p" by simp
      then have "(today - d) div p = (today - (d + p)) div p + 1"
        using "1.prems"(1) by (metis div_add_self2 less_irrefl)
      then show ?thesis
        using True \<open>d \<le> today\<close> ih by (simp add: len)
    next
      case False
      then have "(today - d) div p = 0"
        using \<open>d \<le> today\<close> by (simp add: div_pos_pos_trivial)
      then show ?thesis
        using False \<open>d \<le> today\<close> ih by (simp add: len)
    qed
  next
    case False
    then show ?thesis by (subst occurrenceDays.simps) simp
  qed
qed



lemma Day_mono: "a \<le> b \<Longrightarrow> Day a \<le> Day b"
  using msPerDay_pos by (simp add: Day_def zdiv_mono1)

lemma Day_next: "a + msPerDay \<le> b \<Longrightarrow> Day a < Day b"
  using Day_mono[of "a + msPerDay" b] Day_add_days[of a 1] by simp

lemma whileDue_emits:
  "\<exists>ts c. (\<forall>acc. whileDue h today rt txs cur acc = (c, acc @ map (newTx rt) ts))
     \<and> sorted_wrt (\<lambda>a b. a + msPerDay \<le> b) ts
     \<and> (\<forall>t \<in> set ts. cur \<le> t \<and> t \<le> today
           \<and> \<not> list_ex (\<lambda>tx. tx_id tx = newTxId rt t) txs)
     \<and> today < c \<and> cur \<le> c"
proof (induction "nat (today + 1 - cur)" arbitrary: cur rule: less_induct)
  case less
  let ?n = "nextDate h (rt_frequency rt) cur"
  have step: "cur + msPerDay \<le> ?n" by (rule nextDate_ge)
  show ?case
  proof (cases "cur \<le> today")
    case True
    have "nat (today + 1 - ?n) < nat (today + 1 - cur)"
      using step True msPerDay_pos by simp
    from less[OF this] obtain ts c where
      w: "\<And>acc. whileDue h today rt txs ?n acc = (c, acc @ map (newTx rt) ts)"
      and srt: "sorted_wrt (\<lambda>a b. a + msPerDay \<le> b) ts"
      and mem: "\<forall>t \<in> set ts. ?n \<le> t \<and> t \<le> today
           \<and> \<not> list_ex (\<lambda>tx. tx_id tx = newTxId rt t) txs"
      and c: "today < c" "?n \<le> c"
      by blast
    show ?thesis
    proof (cases "list_ex (\<lambda>tx. tx_id tx = newTxId rt cur) txs")
      case present: True
      have "whileDue h today rt txs cur acc = (c, acc @ map (newTx rt) ts)" for acc
        using True present w[of acc] by (subst whileDue.simps) simp
      moreover have "\<forall>t \<in> set ts. cur \<le> t \<and> t \<le> today
           \<and> \<not> list_ex (\<lambda>tx. tx_id tx = newTxId rt t) txs"
        using mem step msPerDay_pos by fastforce
      moreover have "cur \<le> c" using c step msPerDay_pos by linarith
      ultimately show ?thesis using srt c by blast
    next
      case absent: False
      have "whileDue h today rt txs cur acc = (c, acc @ map (newTx rt) (cur # ts))" for acc
        using True absent w[of "acc @ [newTx rt cur]"] by (subst whileDue.simps) simp
      moreover have "\<forall>t \<in> set (cur # ts). cur \<le> t \<and> t \<le> today
           \<and> \<not> list_ex (\<lambda>tx. tx_id tx = newTxId rt t) txs"
        using mem step msPerDay_pos True absent by fastforce
      moreover have "sorted_wrt (\<lambda>a b. a + msPerDay \<le> b) (cur # ts)"
        using srt mem step by fastforce
      moreover have "cur \<le> c" using c step msPerDay_pos by linarith
      ultimately show ?thesis using c by blast
    qed
  next
    case False
    have "whileDue h today rt txs cur acc = (cur, acc @ map (newTx rt) [])" for acc
      using False by (subst whileDue.simps) simp
    then show ?thesis using False by fastforce
  qed
qed

text \<open>What one rule contributes, whatever has been pushed before it.\<close>

lemma processRule_emits:
  "\<exists>ts c. (\<forall>acc. processRule h today txs rt acc
              = (rt\<lparr>rt_nextOccurrenceDate := toISODate c\<rparr>, acc @ map (newTx rt) ts,
                 setHours0 h (parseDateOnly (rt_nextOccurrenceDate rt)) \<le> today))
     \<and> sorted_wrt (\<lambda>a b. a + msPerDay \<le> b) ts
     \<and> (\<forall>t \<in> set ts. \<not> list_ex (\<lambda>tx. tx_id tx = newTxId rt t) txs)"
proof -
  let ?start = "setHours0 h (parseDateOnly (rt_nextOccurrenceDate rt))"
  show ?thesis
  proof (cases "?start \<le> today")
    case True
    obtain ts c where
      w: "\<And>acc. whileDue h today rt txs ?start acc = (c, acc @ map (newTx rt) ts)"
      and p: "sorted_wrt (\<lambda>a b. a + msPerDay \<le> b) ts"
        "\<forall>t \<in> set ts. \<not> list_ex (\<lambda>tx. tx_id tx = newTxId rt t) txs"
      using whileDue_emits[of h today rt txs ?start] by blast
    have "processRule h today txs rt acc
        = (rt\<lparr>rt_nextOccurrenceDate := toISODate c\<rparr>, acc @ map (newTx rt) ts, ?start \<le> today)"
      for acc
      using True w[of acc] by (simp add: processRule_def Let_def)
    then show ?thesis using p by blast
  next
    case False
    have "processRule h today txs rt acc
        = (rt\<lparr>rt_nextOccurrenceDate := toISODate ?start\<rparr>, acc @ map (newTx rt) [],
           ?start \<le> today)" for acc
      using False by (simp add: processRule_def Let_def)
    then show ?thesis by fastforce
  qed
qed

lemma processRule_acc:
  "processRule h today txs rt acc =
     (fst (processRule h today txs rt []),
      acc @ fst (snd (processRule h today txs rt [])),
      snd (snd (processRule h today txs rt [])))"
proof -
  obtain ts c where
    "\<And>acc. processRule h today txs rt acc
              = (rt\<lparr>rt_nextOccurrenceDate := toISODate c\<rparr>, acc @ map (newTx rt) ts,
                 setHours0 h (parseDateOnly (rt_nextOccurrenceDate rt)) \<le> today)"
    using processRule_emits[of h today txs rt] by blast
  then show ?thesis by simp
qed

lemma processRules_struct:
  "processRules h today txs rules acc changed =
     (map (\<lambda>rt. fst (processRule h today txs rt [])) rules,
      acc @ concat (map (\<lambda>rt. fst (snd (processRule h today txs rt []))) rules),
      changed \<or> list_ex (\<lambda>rt. snd (snd (processRule h today txs rt []))) rules)"
proof (induction rules arbitrary: acc changed)
  case Nil
  then show ?case by simp
next
  case (Cons rt rules)
  show ?case
    using Cons.IH
    by (subst processRules.simps, subst processRule_acc) (simp add: Let_def)
qed


lemma newTx_fields [simp]:
  "tx_id (newTx rt t) = rt_id rt @ ''-'' @ isoDateString (Day t)"
  "tx_date (newTx rt t) = Day t"
  "tx_description (newTx rt t) = rt_description rt"
  "tx_amount (newTx rt t) = rt_amount rt"
  "tx_type (newTx rt t) = rt_type rt"
  "tx_category (newTx rt t) = rt_category rt"
  "tx_notes (newTx rt t) = rt_notes rt"
  "tx_currencyCode (newTx rt t) = rt_currencyCode rt"
  by (simp_all add: newTx_def newTxId_def toISODate_def)

lemma list_ex_id: "list_ex (\<lambda>tx. tx_id tx = i) txs \<longleftrightarrow> i \<in> tx_id ` set txs"
  by (auto simp: list_ex_iff)

lemma id_prefix_eq:
  assumes "CHR ''-'' \<notin> set x" and "CHR ''-'' \<notin> set y"
    and "x @ ''-'' @ s1 = y @ ''-'' @ s2"
  shows "x = y \<and> s1 = s2"
proof -
  have "takeWhile (\<lambda>c. c \<noteq> CHR ''-'') (x @ ''-'' @ s1) = x"
    using assms(1) by (subst takeWhile_append2) auto
  moreover have "takeWhile (\<lambda>c. c \<noteq> CHR ''-'') (y @ ''-'' @ s2) = y"
    using assms(2) by (subst takeWhile_append2) auto
  ultimately have "x = y" using assms(3) by simp
  then show ?thesis using assms(3) by simp
qed

lemma sorted_days_distinct_ids:
  assumes "sorted_wrt (\<lambda>a b. a + msPerDay \<le> b) ts"
  shows "distinct (map (\<lambda>t. tx_id (newTx rt t)) ts)"
proof -
  have "sorted_wrt (\<lambda>a b. Day a < Day b) ts"
    using assms Day_next by (rule sorted_wrt_mono_rel[rotated]) blast
  then have "sorted_wrt (\<lambda>a b. tx_id (newTx rt a) \<noteq> tx_id (newTx rt b)) ts"
  proof (rule sorted_wrt_mono_rel[rotated])
    fix a b assume "Day a < Day b"
    then show "tx_id (newTx rt a) \<noteq> tx_id (newTx rt b)"
      using isoDateString_inj[of "Day a" "Day b"] by auto
  qed
  then show ?thesis
    by (simp add: distinct_map sorted_wrt_map distinct_conv_nth sorted_wrt_iff_nth_less inj_on_def)
       (metis nat_neq_iff in_set_conv_nth)
qed


lemma processRule_new_ids:
  "distinct (map tx_id (fst (snd (processRule h today txs rt []))))
   \<and> (\<forall>tx \<in> set (fst (snd (processRule h today txs rt []))).
         tx_id tx \<notin> tx_id ` set txs
         \<and> tx_id tx = rt_id rt @ ''-'' @ isoDateString (tx_date tx))"
proof -
  obtain ts c where
    w: "\<And>acc. processRule h today txs rt acc
              = (rt\<lparr>rt_nextOccurrenceDate := toISODate c\<rparr>, acc @ map (newTx rt) ts,
                 setHours0 h (parseDateOnly (rt_nextOccurrenceDate rt)) \<le> today)"
    and srt: "sorted_wrt (\<lambda>a b. a + msPerDay \<le> b) ts"
    and absent: "\<forall>t \<in> set ts. \<not> list_ex (\<lambda>tx. tx_id tx = newTxId rt t) txs"
    using processRule_emits[of h today txs rt] by blast
  have e: "fst (snd (processRule h today txs rt [])) = map (newTx rt) ts"
    using w[of "[]"] by simp
  have "distinct (map tx_id (map (newTx rt) ts))"
    using sorted_days_distinct_ids[OF srt, of rt] by (simp add: comp_def)
  moreover have "\<forall>tx \<in> set (map (newTx rt) ts).
         tx_id tx \<notin> tx_id ` set txs
         \<and> tx_id tx = rt_id rt @ ''-'' @ isoDateString (tx_date tx)"
    using absent by (auto simp: list_ex_id newTxId_def toISODate_def)
  ultimately show ?thesis unfolding e by blast
qed

lemma processRecurringTransactions_struct:
  "processRecurringTransactions h rules txs =
     \<lparr> newTransactions =
         concat (map (\<lambda>rt. fst (snd (processRule h (setHours0 h (now h)) txs rt []))) rules),
       updatedRecurringTxs = map (\<lambda>rt. fst (processRule h (setHours0 h (now h)) txs rt [])) rules,
       anyRecurringNextOccurrenceChanged =
         list_ex (\<lambda>rt. snd (snd (processRule h (setHours0 h (now h)) txs rt []))) rules \<rparr>"
  by (simp add: processRecurringTransactions_def Let_def processRules_struct)

lemma processRecurringTransactions_single:
  "processRecurringTransactions h [rt] txs =
     \<lparr> newTransactions = fst (snd (processRule h (setHours0 h (now h)) txs rt [])),
       updatedRecurringTxs = [fst (processRule h (setHours0 h (now h)) txs rt [])],
       anyRecurringNextOccurrenceChanged =
         snd (snd (processRule h (setHours0 h (now h)) txs rt [])) \<rparr>"
  by (simp add: processRecurringTransactions_struct)

text \<open>The rules are processed independently of one another.\<close>

lemma processRecurringTransactions_by_rule:
  "newTransactions (processRecurringTransactions h rules txs)
     = concat (map (\<lambda>rt. newTransactions (processRecurringTransactions h [rt] txs)) rules)
   \<and> updatedRecurringTxs (processRecurringTransactions h rules txs)
     = concat (map (\<lambda>rt. updatedRecurringTxs (processRecurringTransactions h [rt] txs)) rules)
   \<and> anyRecurringNextOccurrenceChanged (processRecurringTransactions h rules txs)
     = list_ex (\<lambda>rt. anyRecurringNextOccurrenceChanged (processRecurringTransactions h [rt] txs))
         rules"
proof -
  have "map (\<lambda>rt. fst (processRule h (setHours0 h (now h)) txs rt [])) rules
      = concat (map (\<lambda>rt. [fst (processRule h (setHours0 h (now h)) txs rt [])]) rules)"
    by (induction rules) simp_all
  then show ?thesis
    by (simp add: processRecurringTransactions_struct)
qed

lemma new_ids_not_existing:
  "tx \<in> set (newTransactions (processRecurringTransactions h rules txs))
     \<Longrightarrow> tx_id tx \<notin> tx_id ` set txs"
  using processRule_new_ids[of h "setHours0 h (now h)" txs]
  by (auto simp: processRecurringTransactions_struct)

lemma new_ids_distinct:
  assumes "distinct (map rt_id rules)"
    and "\<forall>rt \<in> set rules. CHR ''-'' \<notin> set (rt_id rt)"
  shows "distinct (map tx_id (newTransactions (processRecurringTransactions h rules txs)))"
proof -
  let ?E = "\<lambda>rt. fst (snd (processRule h (setHours0 h (now h)) txs rt []))"
  have "distinct (map tx_id (concat (map ?E rules)))"
    using assms
  proof (induction rules)
    case Nil
    then show ?case by simp
  next
    case (Cons r rules)
    have ih: "distinct (map tx_id (concat (map ?E rules)))"
      using Cons by simp
    have d: "distinct (map tx_id (?E r))"
      using processRule_new_ids[of h "setHours0 h (now h)" txs r] by blast
    have disj: "tx_id a \<noteq> tx_id b"
      if a: "a \<in> set (?E r)" and b: "b \<in> set (concat (map ?E rules))" for a b
    proof
      assume eq: "tx_id a = tx_id b"
      obtain r' where r': "r' \<in> set rules" "b \<in> set (?E r')"
        using b by auto
      have ia: "tx_id a = rt_id r @ ''-'' @ isoDateString (tx_date a)"
        using processRule_new_ids[of h "setHours0 h (now h)" txs r] a by blast
      have ib: "tx_id b = rt_id r' @ ''-'' @ isoDateString (tx_date b)"
        using processRule_new_ids[of h "setHours0 h (now h)" txs r'] r'(2) by blast
      have "rt_id r = rt_id r'"
        using id_prefix_eq[of "rt_id r" "rt_id r'" "isoDateString (tx_date a)"
            "isoDateString (tx_date b)"] Cons.prems(2) r'(1) ia ib eq
        by simp
      then show False
        using Cons.prems(1) r'(1) by auto
    qed
    show ?case
      using ih d disj by (auto simp: image_iff)
  qed
  then show ?thesis
    by (simp add: processRecurringTransactions_struct)
qed


lemma nextAfter_not_due: "today < d \<Longrightarrow> nextAfter f d today = d"
  by (subst nextAfter.simps) simp

lemma occurrenceDays_not_due: "today < d \<Longrightarrow> occurrenceDays f d today = []"
  by (subst occurrenceDays.simps) simp

lemma newTx_midnight:
  "newTx rt (d * msPerDay) =
     \<lparr> tx_id = rt_id rt @ ''-'' @ isoDateString d,
       tx_description = rt_description rt,
       tx_amount = rt_amount rt,
       tx_type = rt_type rt,
       tx_date = d,
       tx_category = rt_category rt,
       tx_notes = rt_notes rt,
       tx_currencyCode = rt_currencyCode rt \<rparr>"
  by (simp add: newTx_def newTxId_def toISODate_def Day_midnight)

lemma processRule_utc:
  assumes tz: "localTZA h = 0"
  shows "processRule h (today * msPerDay) txs rt acc =
     (rt\<lparr>rt_nextOccurrenceDate :=
           nextAfter (rt_frequency rt) (rt_nextOccurrenceDate rt) today\<rparr>,
      acc @ map (\<lambda>d. newTx rt (d * msPerDay))
              (filter (\<lambda>d. rt_id rt @ ''-'' @ isoDateString d \<notin> tx_id ` set txs)
                 (occurrenceDays (rt_frequency rt) (rt_nextOccurrenceDate rt) today)),
      rt_nextOccurrenceDate rt \<le> today)"
proof -
  let ?D = "rt_nextOccurrenceDate rt"
  have start: "setHours0 h (parseDateOnly ?D) = ?D * msPerDay"
    by (simp add: setHours0_utc[OF tz] parseDateOnly_eq Day_midnight)
  have le: "(?D * msPerDay \<le> today * msPerDay) = (?D \<le> today)"
    using msPerDay_pos by simp
  have f: "(\<lambda>d. \<not> list_ex (\<lambda>tx. tx_id tx = newTxId rt (d * msPerDay)) txs)
      = (\<lambda>d. rt_id rt @ ''-'' @ isoDateString d \<notin> tx_id ` set txs)"
    by (simp add: fun_eq_iff list_ex_id newTxId_def toISODate_def Day_midnight)
  show ?thesis
  proof (cases "?D \<le> today")
    case True
    then show ?thesis
      by (simp add: processRule_def start le Let_def whileDue_utc[OF tz] f toISODate_def
          Day_midnight)
  next
    case False
    then show ?thesis
      by (simp add: processRule_def start le Let_def toISODate_def Day_midnight
          nextAfter_not_due occurrenceDays_not_due)
  qed
qed

lemma processRecurringTransactions_utc:
  assumes tz: "localTZA h = 0"
  shows "processRecurringTransactions h [rt] txs =
     \<lparr> newTransactions =
         map (\<lambda>d. newTx rt (d * msPerDay))
           (filter (\<lambda>d. rt_id rt @ ''-'' @ isoDateString d \<notin> tx_id ` set txs)
              (occurrenceDays (rt_frequency rt) (rt_nextOccurrenceDate rt) (Day (now h)))),
       updatedRecurringTxs =
         [rt\<lparr>rt_nextOccurrenceDate :=
               nextAfter (rt_frequency rt) (rt_nextOccurrenceDate rt) (Day (now h))\<rparr>],
       anyRecurringNextOccurrenceChanged = (rt_nextOccurrenceDate rt \<le> Day (now h)) \<rparr>"
  by (simp add: processRecurringTransactions_single setHours0_utc[OF tz] processRule_utc[OF tz])

lemma processRecurringTransactions_utc_all:
  assumes tz: "localTZA h = 0"
  shows "processRecurringTransactions h rules txs =
     \<lparr> newTransactions =
         concat (map (\<lambda>rt. map (\<lambda>d. newTx rt (d * msPerDay))
           (filter (\<lambda>d. rt_id rt @ ''-'' @ isoDateString d \<notin> tx_id ` set txs)
              (occurrenceDays (rt_frequency rt) (rt_nextOccurrenceDate rt) (Day (now h)))))
           rules),
       updatedRecurringTxs =
         map (\<lambda>rt. rt\<lparr>rt_nextOccurrenceDate :=
               nextAfter (rt_frequency rt) (rt_nextOccurrenceDate rt) (Day (now h))\<rparr>) rules,
       anyRecurringNextOccurrenceChanged =
         list_ex (\<lambda>rt. rt_nextOccurrenceDate rt \<le> Day (now h)) rules \<rparr>"
  by (simp add: processRecurringTransactions_struct setHours0_utc[OF tz] processRule_utc[OF tz])

text \<open>
  On a host whose zone is UTC a second pass over the updated rules, against any list of
  transactions, generates nothing and returns the rules as they are.
\<close>

lemma materialize_idempotent_utc:
  assumes tz: "localTZA h = 0"
  shows "newTransactions (processRecurringTransactions h
            (updatedRecurringTxs (processRecurringTransactions h rules txs)) txs') = []
    \<and> updatedRecurringTxs (processRecurringTransactions h
            (updatedRecurringTxs (processRecurringTransactions h rules txs)) txs')
        = updatedRecurringTxs (processRecurringTransactions h rules txs)
    \<and> \<not> anyRecurringNextOccurrenceChanged (processRecurringTransactions h
            (updatedRecurringTxs (processRecurringTransactions h rules txs)) txs')"
proof -
  let ?T = "Day (now h)"
  let ?N = "\<lambda>rt. nextAfter (rt_frequency rt) (rt_nextOccurrenceDate rt) ?T"
  let ?up = "\<lambda>rt. rt\<lparr>rt_nextOccurrenceDate := ?N rt\<rparr>"
  have r1: "updatedRecurringTxs (processRecurringTransactions h rules txs) = map ?up rules"
    by (simp add: processRecurringTransactions_utc_all[OF tz])
  have 1: "occurrenceDays (rt_frequency rt) (?N rt) ?T = []" for rt
    by (simp add: occurrenceDays_not_due nextAfter_gt)
  have 2: "nextAfter (rt_frequency rt) (?N rt) ?T = ?N rt" for rt
    by (simp add: nextAfter_not_due nextAfter_gt)
  have 3: "\<not> ?N rt \<le> ?T" for rt
    using nextAfter_gt[of ?T "rt_frequency rt" "rt_nextOccurrenceDate rt"] by simp
  have n: "newTransactions (processRecurringTransactions h (map ?up rules) txs') = []"
    by (simp add: processRecurringTransactions_utc_all[OF tz] 1 comp_def)
  have u: "updatedRecurringTxs (processRecurringTransactions h (map ?up rules) txs')
      = map ?up rules"
    by (simp add: processRecurringTransactions_utc_all[OF tz] 2 comp_def)
  have a: "\<not> anyRecurringNextOccurrenceChanged
      (processRecurringTransactions h (map ?up rules) txs')"
    by (simp add: processRecurringTransactions_utc_all[OF tz] 3 list_ex_iff)
  show ?thesis
    unfolding r1 using n u a by blast
qed

lemma occurrenceDays_nonempty_iff: "occurrenceDays f d today \<noteq> [] \<longleftrightarrow> d \<le> today"
  by (subst occurrenceDays.simps) simp

text \<open>
  A monthly or yearly step from a day of the month up to the 28th leads to the same day
  of the next month or year. From a later day of the month \<^verbatim>\<open>setMonth\<close> and
  \<^verbatim>\<open>setFullYear\<close> can run over into the following month.
\<close>

lemma stepDay_monthly_civil:
  assumes "DateFromDay d \<le> 28"
  shows "DateFromDay (stepDay ''monthly'' d) = DateFromDay d
     \<and> MonthFromDay (stepDay ''monthly'' d) = (MonthFromDay d + 1) mod 12
     \<and> YearFromDay (stepDay ''monthly'' d) = YearFromDay d + (MonthFromDay d + 1) div 12"
proof -
  let ?y = "YearFromDay d + (MonthFromDay d + 1) div 12"
  let ?m = "(MonthFromDay d + 1) mod 12"
  have e: "stepDay ''monthly'' d = MakeDay ?y ?m (DateFromDay d)"
    by (simp add: stepDay_cases MakeDay_def)
  have m: "0 \<le> ?m" "?m \<le> 11" by simp_all
  show ?thesis
    unfolding e using MakeDay_civil[OF m _ assms, of ?y] DateFromDay_range[of d] by simp
qed

lemma stepDay_yearly_civil:
  assumes "DateFromDay d \<le> 28"
  shows "DateFromDay (stepDay ''yearly'' d) = DateFromDay d
     \<and> MonthFromDay (stepDay ''yearly'' d) = MonthFromDay d
     \<and> YearFromDay (stepDay ''yearly'' d) = YearFromDay d + 1"
proof -
  have e: "stepDay ''yearly'' d = MakeDay (YearFromDay d + 1) (MonthFromDay d) (DateFromDay d)"
    by (simp add: stepDay_cases)
  show ?thesis
    unfolding e
    using MakeDay_civil[of "MonthFromDay d" "DateFromDay d" "YearFromDay d + 1"]
      MonthFromDay_range[of d] DateFromDay_range[of d] assms by simp
qed

lemma stepDay_monthly_overflow: "stepDay ''monthly'' 19753 = 19784"
  by code_simp

section \<open>What one pass generates (claim C1)\<close>

text \<open>
  Claim C1, for a host whose local zone is UTC. For every rule whose next-occurrence date
  is not after today, one call generates one transaction for each of the dates
  next, step(next), step(step(next)), ... up to today whose id
  \<open>{ruleId}-{date}\<close> is not the id of a stored transaction, each copying the rule's
  description, amount, type, category, notes and currency; the ids generated for the rule
  are distinct from one another and from every stored id; the rule is returned with the
  first date of that sequence after today. When no stored id has the rule's form there
  is one transaction for each date of the sequence, and the sequence has
  \<open>(today - next) div 1 + 1\<close> dates for a daily rule (and for an unrecognized
  frequency) and \<open>(today - next) div 7 + 1\<close> for a weekly one. The rules of a list are
  processed independently, and the ids generated from rules with distinct ids (free of
  hyphens) are distinct.
\<close>

theorem materialize_due_rule_utc:
  assumes tz: "localTZA h = 0"
    and due: "rt_nextOccurrenceDate rt \<le> Day (now h)"
  shows
    "newTransactions (processRecurringTransactions h [rt] txs)
       = map (\<lambda>d. \<lparr> tx_id = rt_id rt @ ''-'' @ isoDateString d,
                     tx_description = rt_description rt,
                     tx_amount = rt_amount rt,
                     tx_type = rt_type rt,
                     tx_date = d,
                     tx_category = rt_category rt,
                     tx_notes = rt_notes rt,
                     tx_currencyCode = rt_currencyCode rt \<rparr>)
           (filter (\<lambda>d. rt_id rt @ ''-'' @ isoDateString d \<notin> tx_id ` set txs)
              (occurrenceDays (rt_frequency rt) (rt_nextOccurrenceDate rt) (Day (now h))))
     \<and> updatedRecurringTxs (processRecurringTransactions h [rt] txs)
       = [rt\<lparr>rt_nextOccurrenceDate :=
              nextAfter (rt_frequency rt) (rt_nextOccurrenceDate rt) (Day (now h))\<rparr>]
     \<and> Day (now h) < nextAfter (rt_frequency rt) (rt_nextOccurrenceDate rt) (Day (now h))
     \<and> distinct (map tx_id (newTransactions (processRecurringTransactions h [rt] txs)))
     \<and> tx_id ` set (newTransactions (processRecurringTransactions h [rt] txs))
         \<inter> tx_id ` set txs = {}
     \<and> ((\<forall>d. rt_id rt @ ''-'' @ isoDateString d \<notin> tx_id ` set txs) \<longrightarrow>
          length (newTransactions (processRecurringTransactions h [rt] txs))
            = length (occurrenceDays (rt_frequency rt) (rt_nextOccurrenceDate rt) (Day (now h))))
     \<and> (rt_frequency rt \<notin> {''weekly'', ''monthly'', ''yearly''} \<longrightarrow>
          int (length (occurrenceDays (rt_frequency rt) (rt_nextOccurrenceDate rt) (Day (now h))))
            = (Day (now h) - rt_nextOccurrenceDate rt) div 1 + 1)
     \<and> (rt_frequency rt = ''weekly'' \<longrightarrow>
          int (length (occurrenceDays (rt_frequency rt) (rt_nextOccurrenceDate rt) (Day (now h))))
            = (Day (now h) - rt_nextOccurrenceDate rt) div 7 + 1)
     \<and> newTransactions (processRecurringTransactions h rules txs)
       = concat (map (\<lambda>r. newTransactions (processRecurringTransactions h [r] txs)) rules)
     \<and> updatedRecurringTxs (processRecurringTransactions h rules txs)
       = concat (map (\<lambda>r. updatedRecurringTxs (processRecurringTransactions h [r] txs)) rules)
     \<and> (distinct (map rt_id rules) \<and> (\<forall>r \<in> set rules. CHR ''-'' \<notin> set (rt_id r)) \<longrightarrow>
          distinct (map tx_id (newTransactions (processRecurringTransactions h rules txs))))"
proof -
  let ?f = "rt_frequency rt"
  let ?D = "rt_nextOccurrenceDate rt"
  let ?T = "Day (now h)"
  let ?r = "processRecurringTransactions h [rt] txs"
  have new: "newTransactions ?r
       = map (\<lambda>d. \<lparr> tx_id = rt_id rt @ ''-'' @ isoDateString d,
                     tx_description = rt_description rt,
                     tx_amount = rt_amount rt,
                     tx_type = rt_type rt,
                     tx_date = d,
                     tx_category = rt_category rt,
                     tx_notes = rt_notes rt,
                     tx_currencyCode = rt_currencyCode rt \<rparr>)
           (filter (\<lambda>d. rt_id rt @ ''-'' @ isoDateString d \<notin> tx_id ` set txs)
              (occurrenceDays ?f ?D ?T))"
    by (simp add: processRecurringTransactions_utc[OF tz] newTx_midnight)
  have upd: "updatedRecurringTxs ?r = [rt\<lparr>rt_nextOccurrenceDate := nextAfter ?f ?D ?T\<rparr>]"
    by (simp add: processRecurringTransactions_utc[OF tz])
  have gt: "?T < nextAfter ?f ?D ?T"
    by (rule nextAfter_gt)
  have dist: "distinct (map tx_id (newTransactions ?r))"
    using processRule_new_ids[of h "setHours0 h (now h)" txs rt]
    by (simp add: processRecurringTransactions_single)
  have fresh: "tx_id ` set (newTransactions ?r) \<inter> tx_id ` set txs = {}"
    using new_ids_not_existing[of _ h "[rt]" txs] by blast
  have len: "length (newTransactions ?r) = length (occurrenceDays ?f ?D ?T)"
    if "\<forall>d. rt_id rt @ ''-'' @ isoDateString d \<notin> tx_id ` set txs"
    using that by (simp add: new)
  have daily: "int (length (occurrenceDays ?f ?D ?T)) = (?T - ?D) div 1 + 1"
    if "?f \<notin> {''weekly'', ''monthly'', ''yearly''}"
  proof -
    have "\<forall>x. stepDay ?f x = x + 1"
      using that by (simp add: stepDay_cases)
    then show ?thesis
      using occurrenceDays_fixed_period[of 1 ?f ?D ?T] due by simp
  qed
  have weekly: "int (length (occurrenceDays ?f ?D ?T)) = (?T - ?D) div 7 + 1"
    if "?f = ''weekly''"
  proof -
    have "\<forall>x. stepDay ?f x = x + 7"
      using that by (simp add: stepDay_cases)
    then show ?thesis
      using occurrenceDays_fixed_period[of 7 ?f ?D ?T] due by simp
  qed
  have cross: "distinct (map tx_id (newTransactions (processRecurringTransactions h rules txs)))"
    if "distinct (map rt_id rules) \<and> (\<forall>r \<in> set rules. CHR ''-'' \<notin> set (rt_id r))"
    using that new_ids_distinct[of rules h txs] by blast
  show ?thesis
    using new upd gt dist fresh len daily weekly cross
      processRecurringTransactions_by_rule[of h rules txs]
    by blast
qed


theorem materialize_due_rule_utc_witness:
  "newTransactions (processRecurringTransactions utcHost [gymRule] [])
       = map (\<lambda>d. \<lparr> tx_id = rt_id gymRule @ ''-'' @ isoDateString d,
                     tx_description = rt_description gymRule,
                     tx_amount = rt_amount gymRule,
                     tx_type = rt_type gymRule,
                     tx_date = d,
                     tx_category = rt_category gymRule,
                     tx_notes = rt_notes gymRule,
                     tx_currencyCode = rt_currencyCode gymRule \<rparr>)
           (occurrenceDays (rt_frequency gymRule) (rt_nextOccurrenceDate gymRule)
              (Day (now utcHost)))
   \<and> Day (now utcHost)
       < nextAfter (rt_frequency gymRule) (rt_nextOccurrenceDate gymRule) (Day (now utcHost))
   \<and> distinct (map tx_id (newTransactions (processRecurringTransactions utcHost [gymRule] [])))
   \<and> int (length (occurrenceDays (rt_frequency coffeeRule) (rt_nextOccurrenceDate coffeeRule)
         (Day (now utcHost))))
       = (Day (now utcHost) - rt_nextOccurrenceDate coffeeRule) div 1 + 1"
proof -
  have tz: "localTZA utcHost = 0"
    by (simp add: utcHost_def)
  have today: "Day (now utcHost) = 19797"
    by (simp add: utcHost_def Day_def msPerDay_def)
  have due: "rt_nextOccurrenceDate gymRule \<le> Day (now utcHost)"
    by (simp add: today gymRule_def)
  have due': "rt_nextOccurrenceDate coffeeRule \<le> Day (now utcHost)"
    by (simp add: today coffeeRule_def)
  have daily: "rt_frequency coffeeRule \<notin> {''weekly'', ''monthly'', ''yearly''}"
    by (simp add: coffeeRule_def)
  note g = materialize_due_rule_utc[OF tz due, of "[]" "[]"]
  note c = materialize_due_rule_utc[OF tz due', of "[]" "[]"]
  have 1: "newTransactions (processRecurringTransactions utcHost [gymRule] [])
       = map (\<lambda>d. \<lparr> tx_id = rt_id gymRule @ ''-'' @ isoDateString d,
                     tx_description = rt_description gymRule,
                     tx_amount = rt_amount gymRule,
                     tx_type = rt_type gymRule,
                     tx_date = d,
                     tx_category = rt_category gymRule,
                     tx_notes = rt_notes gymRule,
                     tx_currencyCode = rt_currencyCode gymRule \<rparr>)
           (occurrenceDays (rt_frequency gymRule) (rt_nextOccurrenceDate gymRule)
              (Day (now utcHost)))"
    using g by simp
  have 2: "Day (now utcHost)
       < nextAfter (rt_frequency gymRule) (rt_nextOccurrenceDate gymRule) (Day (now utcHost))"
    using g by blast
  have 3: "distinct (map tx_id (newTransactions (processRecurringTransactions utcHost [gymRule] [])))"
    using g by blast
  have 4: "int (length (occurrenceDays (rt_frequency coffeeRule) (rt_nextOccurrenceDate coffeeRule)
         (Day (now utcHost))))
       = (Day (now utcHost) - rt_nextOccurrenceDate coffeeRule) div 1 + 1"
    using c daily by blast
  show ?thesis
    using 1 2 3 4 by blast
qed

text \<open>
  The count of the claim fails where a transaction with the id is already stored: the
  daily rule that is due today, with today's transaction in the list.
\<close>

theorem materialize_count_counterexample:
  "localTZA utcHost = 0
   \<and> rt_nextOccurrenceDate coffeeRule \<le> Day (now utcHost)
   \<and> (Day (now utcHost) - rt_nextOccurrenceDate coffeeRule) div 1 + 1 = 1
   \<and> newTransactions (processRecurringTransactions utcHost [coffeeRule] [coffeeTx]) = []"
  by code_simp

section \<open>The example scenario and the second pass (claims C2 and C3)\<close>

text \<open>
  On a host whose zone is UTC the example scenario gives the three transactions of
  January, February and March 2024, and 2024-04-01 as the next occurrence.
\<close>

lemma example_scenario_utc:
  assumes tz: "localTZA h = 0"
    and today: "Day (now h) = 19797"
    and monthly: "rt_frequency rt = ''monthly''"
    and start: "rt_nextOccurrenceDate rt = 19723"
  shows "processRecurringTransactions h [rt] [] =
     \<lparr> newTransactions =
         [\<lparr> tx_id = rt_id rt @ ''-2024-01-01'', tx_description = rt_description rt,
            tx_amount = rt_amount rt, tx_type = rt_type rt, tx_date = 19723,
            tx_category = rt_category rt, tx_notes = rt_notes rt,
            tx_currencyCode = rt_currencyCode rt \<rparr>,
          \<lparr> tx_id = rt_id rt @ ''-2024-02-01'', tx_description = rt_description rt,
            tx_amount = rt_amount rt, tx_type = rt_type rt, tx_date = 19754,
            tx_category = rt_category rt, tx_notes = rt_notes rt,
            tx_currencyCode = rt_currencyCode rt \<rparr>,
          \<lparr> tx_id = rt_id rt @ ''-2024-03-01'', tx_description = rt_description rt,
            tx_amount = rt_amount rt, tx_type = rt_type rt, tx_date = 19783,
            tx_category = rt_category rt, tx_notes = rt_notes rt,
            tx_currencyCode = rt_currencyCode rt \<rparr>],
       updatedRecurringTxs = [rt\<lparr>rt_nextOccurrenceDate := 19814\<rparr>],
       anyRecurringNextOccurrenceChanged = True \<rparr>"
proof -
  have occ: "occurrenceDays ''monthly'' 19723 19797 = [19723, 19754, 19783]"
    by code_simp
  have nxt: "nextAfter ''monthly'' 19723 19797 = 19814"
    by code_simp
  have iso: "isoDateString 19723 = ''2024-01-01''" "isoDateString 19754 = ''2024-02-01''"
    "isoDateString 19783 = ''2024-03-01''"
    by code_simp+
  show ?thesis
    by (simp add: processRecurringTransactions_utc[OF tz] today monthly start occ nxt
        newTx_midnight iso)
qed

text \<open>
  The first pass over the rule of the example on the host in UTC+3. The rule's date is
  parsed as UTC midnight, moved to local midnight by \<^verbatim>\<open>setHours(0, 0, 0, 0)\<close>, which
  is 21:00 UTC of the day before, and written back with \<^verbatim>\<open>toISOString\<close>, which
  gives the UTC day.
\<close>

lemma first_pass_nairobi:
  "processRecurringTransactions nairobiHost [gymRule] [] =
     \<lparr> newTransactions =
         [\<lparr> tx_id = ''1704067200000-2023-12-31'', tx_description = ''Gym'', tx_amount = 50,
            tx_type = Expense, tx_date = 19722, tx_category = ''Health'', tx_notes = None,
            tx_currencyCode = ''USD'' \<rparr>,
          \<lparr> tx_id = ''1704067200000-2024-01-31'', tx_description = ''Gym'', tx_amount = 50,
            tx_type = Expense, tx_date = 19753, tx_category = ''Health'', tx_notes = None,
            tx_currencyCode = ''USD'' \<rparr>,
          \<lparr> tx_id = ''1704067200000-2024-02-29'', tx_description = ''Gym'', tx_amount = 50,
            tx_type = Expense, tx_date = 19782, tx_category = ''Health'', tx_notes = None,
            tx_currencyCode = ''USD'' \<rparr>],
       updatedRecurringTxs = [gymRule\<lparr>rt_nextOccurrenceDate := 19813\<rparr>],
       anyRecurringNextOccurrenceChanged = True \<rparr>"
  by code_simp

text \<open>
  Claim C3. The scenario of the claim (a monthly rule from 2024-01-01, amount 50, USD,
  today 2024-03-15, no stored transactions) on the host in UTC+3: the three transactions
  are dated 2023-12-31, 2024-01-31 and 2024-02-29 (days 19722, 19753 and 19782) and the
  next occurrence is 2024-03-31 (day 19813), where the claim has 2024-01-01, 2024-02-01,
  2024-03-01 and 2024-04-01.
\<close>

theorem example_scenario_nairobi:
  "map tx_id (newTransactions (processRecurringTransactions nairobiHost [gymRule] []))
     = [''1704067200000-2023-12-31'', ''1704067200000-2024-01-31'',
        ''1704067200000-2024-02-29'']
   \<and> map tx_date (newTransactions (processRecurringTransactions nairobiHost [gymRule] []))
     = [19722, 19753, 19782]
   \<and> map rt_nextOccurrenceDate
       (updatedRecurringTxs (processRecurringTransactions nairobiHost [gymRule] []))
     = [19813]
   \<and> isoDateString 19813 = ''2024-03-31''"
proof -
  have "isoDateString 19813 = ''2024-03-31''"
    by code_simp
  then show ?thesis
    by (simp add: first_pass_nairobi)
qed

text \<open>
  Claim C2. A second pass on the host in UTC+3, with the same instant, over the rules
  that the first pass returned and the merged transactions: it returns the rule with the
  next occurrence 2024-03-30 (day 19812), one day before the 2024-03-31 (day 19813) that
  the first pass had returned. It generates no transaction.
\<close>

theorem second_pass_nairobi:
  "map rt_nextOccurrenceDate
     (updatedRecurringTxs (processRecurringTransactions nairobiHost [gymRule] []))
     = [19813]
   \<and> map rt_nextOccurrenceDate
     (updatedRecurringTxs (processRecurringTransactions nairobiHost
        (updatedRecurringTxs (processRecurringTransactions nairobiHost [gymRule] []))
        (mergeNewTransactions codeUnitCompare
           (newTransactions (processRecurringTransactions nairobiHost [gymRule] [])) [])))
     = [19812]
   \<and> newTransactions (processRecurringTransactions nairobiHost
        (updatedRecurringTxs (processRecurringTransactions nairobiHost [gymRule] []))
        (mergeNewTransactions codeUnitCompare
           (newTransactions (processRecurringTransactions nairobiHost [gymRule] [])) []))
     = []"
  unfolding first_pass_nairobi by code_simp

section \<open>The summary (claim C4)\<close>









lemma keys_in_present:
  "k \<in> fst ` set m \<Longrightarrow> map_of m k \<noteq> None"
  by (simp add: map_of_eq_None_iff)



section \<open>Binary64 arithmetic\<close>

lemma pow2_powi: "pow2 e = 2 powi e"
  by (simp add: pow2_def power_int_def inverse_eq_divide power_one_over)

lemma pow2_pos: "0 < pow2 e"
  by (simp add: pow2_powi)

lemma pow2_add: "pow2 (a + b) = pow2 a * pow2 b"
  by (simp add: pow2_powi power_int_add)

lemma pow2_diff: "pow2 (a - b) = pow2 a / pow2 b"
  by (simp add: pow2_powi power_int_diff)

lemma pow2_succ: "pow2 (e + 1) = 2 * pow2 e"
  by (simp add: pow2_powi power_int_add)

lemma pow2_pred: "pow2 (e - 1) = pow2 e / 2"
  by (simp add: pow2_powi power_int_diff)

lemma pow2_mono: "a \<le> b \<Longrightarrow> pow2 a \<le> pow2 b"
  by (simp add: pow2_powi power_int_increasing)

lemma pow2_strict_mono: "a < b \<Longrightarrow> pow2 a < pow2 b"
  by (simp add: pow2_powi power_int_strict_increasing)

lemma pow2_less_iff: "pow2 a < pow2 b \<longleftrightarrow> a < b"
  using pow2_strict_mono[of a b] pow2_mono[of b a] by (cases "a < b") auto

text \<open>The exponent of a positive number is the exponent of its binade, and only that.\<close>

lemma exponentOf_bounds:
  "0 < x \<Longrightarrow> pow2 (exponentOf x) \<le> x \<and> x < pow2 (exponentOf x + 1)"
proof (induction x rule: exponentOf.induct)
  case (1 x)
  show ?case
  proof (cases "2 \<le> x")
    case True
    have e: "exponentOf x = exponentOf (x / 2) + 1"
      using True by (subst exponentOf.simps) simp
    have "pow2 (exponentOf (x / 2)) \<le> x / 2 \<and> x / 2 < pow2 (exponentOf (x / 2) + 1)"
      using "1.IH"(1)[OF True] "1.prems" by simp
    then show ?thesis
      unfolding e pow2_succ by simp
  next
    case False
    show ?thesis
    proof (cases "x < 1")
      case True
      have c: "0 < x \<and> x < 1"
        using True "1.prems" by simp
      have e: "exponentOf x = exponentOf (2 * x) - 1"
        using False c by (subst exponentOf.simps) simp
      have "pow2 (exponentOf (2 * x)) \<le> 2 * x \<and> 2 * x < pow2 (exponentOf (2 * x) + 1)"
        using "1.IH"(2)[OF False c] "1.prems" by simp
      then show ?thesis
        unfolding e pow2_pred by (simp add: pow2_succ)
    next
      case nl: False
      have e: "exponentOf x = 0"
        using False nl by (subst exponentOf.simps) simp
      show ?thesis
        unfolding e using False nl by (simp add: pow2_def)
    qed
  qed
qed

lemma exponentOf_unique:
  assumes "pow2 e \<le> x" "x < pow2 (e + 1)"
  shows "exponentOf x = e"
proof -
  have x: "0 < x"
    using assms(1) pow2_pos[of e] by linarith
  note b = exponentOf_bounds[OF x]
  have "pow2 e < pow2 (exponentOf x + 1)"
    using assms(1) b by linarith
  moreover have "pow2 (exponentOf x) < pow2 (e + 1)"
    using assms(2) b by linarith
  ultimately show ?thesis
    unfolding pow2_less_iff by linarith
qed

text \<open>Rounding keeps an integer, and moves every number by at most one half.\<close>

lemma roundHalfEven_of_int: "roundHalfEven (of_int n) = n"
  by (simp add: roundHalfEven_def)

lemma roundHalfEven_near:
  assumes "of_int n - 1 / 2 < x" "x < of_int n + 1 / 2"
  shows "roundHalfEven x = n"
proof (cases "of_int n \<le> x")
  case True
  then have f: "\<lfloor>x\<rfloor> = n"
    using assms by (intro floor_unique) simp_all
  show ?thesis
    using assms True by (simp add: roundHalfEven_def f Let_def)
next
  case False
  then have f: "\<lfloor>x\<rfloor> = n - 1"
    using assms by (intro floor_unique) simp_all
  show ?thesis
    using assms False by (simp add: roundHalfEven_def f Let_def)
qed

lemma roundHalfEven_error: "\<bar>of_int (roundHalfEven x) - x\<bar> \<le> 1 / 2"
proof -
  define r where "r = x - of_int \<lfloor>x\<rfloor>"
  have r: "0 \<le> r" "r < 1"
    unfolding r_def by linarith+
  have x: "x = of_int \<lfloor>x\<rfloor> + r"
    unfolding r_def by simp
  have "roundHalfEven x = \<lfloor>x\<rfloor> \<and> r \<le> 1 / 2 \<or> roundHalfEven x = \<lfloor>x\<rfloor> + 1 \<and> 1 / 2 \<le> r"
    unfolding roundHalfEven_def Let_def r_def[symmetric] by auto
  then show ?thesis
  proof
    assume a: "roundHalfEven x = \<lfloor>x\<rfloor> \<and> r \<le> 1 / 2"
    have "of_int (roundHalfEven x) - x = - r"
      using a by (subst (2) x) simp
    then show ?thesis
      using a r by simp
  next
    assume a: "roundHalfEven x = \<lfloor>x\<rfloor> + 1 \<and> 1 / 2 \<le> r"
    have "of_int (roundHalfEven x) - x = 1 - r"
      using a by (subst (2) x) simp
    then show ?thesis
      using a r by simp
  qed
qed

lemma roundHalfEven_le:
  assumes "x \<le> of_int k"
  shows "roundHalfEven x \<le> k"
proof -
  have "of_int (roundHalfEven x) - x \<le> 1 / 2"
    using roundHalfEven_error[of x] by linarith
  then have "(of_int (roundHalfEven x) :: rat) < of_int (k + 1)"
    using assms by simp
  then show ?thesis
    by simp
qed

lemma roundHalfEven_ge:
  assumes "of_int k \<le> x"
  shows "k \<le> roundHalfEven x"
proof -
  have "x - of_int (roundHalfEven x) \<le> 1 / 2"
    using roundHalfEven_error[of x] by linarith
  then have "(of_int (k - 1) :: rat) < of_int (roundHalfEven x)"
    using assms by simp
  then show ?thesis
    by simp
qed

text \<open>
  The Number of a magnitude, from the exponent \<open>e\<close> of its binade and the integer \<open>n\<close>
  nearest to its quotient by the spacing: the form in which the values below are computed.
\<close>

lemma numberFor_eval:
  assumes "pow2 e \<le> x" "x < pow2 (e + 1)"
    and "q = max e (- 1022) - 52"
    and "of_int n - 1 / 2 < x / pow2 q" "x / pow2 q < of_int n + 1 / 2"
    and "0 < n" "of_int n * pow2 q < 2 ^ 1024"
  shows "numberFor s x = Val (if s then - (of_int n * pow2 q) else of_int n * pow2 q)"
proof -
  have e: "exponentOf x = e"
    using assms(1,2) by (rule exponentOf_unique)
  have r: "roundHalfEven (x / pow2 q) = n"
    using assms(4,5) by (rule roundHalfEven_near)
  have p: "0 < of_int n * pow2 q"
    using assms(6) pow2_pos[of q] by simp
  have z: "of_int n * pow2 q \<noteq> 0"
    using p by (metis less_irrefl)
  have o: "\<not> 2 ^ 1024 \<le> of_int n * pow2 q"
    using assms(7) by simp
  show ?thesis
    unfolding numberFor_def e assms(3)[symmetric] Let_def r if_not_P[OF o] if_not_P[OF z] ..
qed

text \<open>
  A binary64 value is its own Number: \<open>m * pow2 q\<close> with a significand \<open>m\<close> below
  \<open>2 ^ 53\<close> and an exponent \<open>q\<close> from -1074 to 971 is every finite value of the format
  but the zeros.
\<close>

lemma numberFor_binary64:
  assumes m: "0 < m" "m < 2 ^ 53" and q: "- 1074 \<le> q" "q \<le> 971"
  shows "numberFor s (of_int m * pow2 q)
       = Val (if s then - (of_int m * pow2 q) else of_int m * pow2 q)"
proof -
  let ?a = "of_int m * pow2 q :: rat"
  define e where "e = exponentOf ?a"
  define u where "u = max e (- 1022) - 52"
  have a: "0 < ?a"
    using m(1) pow2_pos[of q] by simp
  have b: "pow2 e \<le> ?a" "?a < pow2 (e + 1)"
    using exponentOf_bounds[OF a] unfolding e_def by simp_all
  have "(of_int m :: rat) < of_int (2 ^ 53)"
    using m(2) by (simp only: of_int_less_iff)
  then have "(of_int m :: rat) < pow2 53"
    by (simp add: pow2_def)
  then have "?a < pow2 53 * pow2 q"
    using pow2_pos[of q] by simp
  then have up: "?a < pow2 (53 + q)"
    by (simp add: pow2_add)
  have "pow2 e < pow2 (53 + q)"
    using b(1) up by linarith
  then have "e < 53 + q"
    by (simp only: pow2_less_iff)
  then have uq: "u \<le> q"
    using q(1) unfolding u_def by simp
  have "pow2 (q - u) = 2 ^ nat (q - u)"
    using uq by (simp add: pow2_def)
  then have pq: "pow2 q / pow2 u = 2 ^ nat (q - u)"
    by (simp only: pow2_diff)
  have "?a / pow2 u = of_int m * (pow2 q / pow2 u)"
    by simp
  also have "\<dots> = of_int m * 2 ^ nat (q - u)"
    by (simp only: pq)
  also have "\<dots> = of_int (m * 2 ^ nat (q - u))"
    by simp
  finally have d: "?a / pow2 u = of_int (m * 2 ^ nat (q - u))" .
  have "roundHalfEven (?a / pow2 u) = m * 2 ^ nat (q - u)"
    unfolding d by (rule roundHalfEven_of_int)
  then have "of_int (roundHalfEven (?a / pow2 u)) = ?a / pow2 u"
    unfolding d by (rule arg_cong)
  then have r: "of_int (roundHalfEven (?a / pow2 u)) * pow2 u = ?a"
    using pow2_pos[of u] by simp
  have "pow2 (53 + q) \<le> pow2 1024"
    using q(2) by (intro pow2_mono) simp
  then have "?a < pow2 1024"
    using up by linarith
  then have o: "\<not> 2 ^ 1024 \<le> ?a"
    by (simp add: pow2_def)
  have z: "?a \<noteq> 0"
    using a by (metis less_irrefl)
  show ?thesis
    unfolding numberFor_def e_def[symmetric] u_def[symmetric] Let_def r
      if_not_P[OF o] if_not_P[OF z] ..
qed

lemma numberOf_binary64:
  assumes "m \<noteq> 0" "\<bar>m\<bar> < 2 ^ 53" "- 1074 \<le> q" "q \<le> 971"
  shows "numberOf (of_int m * pow2 q) = Val (of_int m * pow2 q)"
proof -
  have a: "\<bar>of_int m * pow2 q :: rat\<bar> = of_int \<bar>m\<bar> * pow2 q"
    using pow2_pos[of q] by (simp add: abs_mult)
  have s: "(of_int m * pow2 q :: rat) < 0 \<longleftrightarrow> m < 0"
    using pow2_pos[of q] by (simp add: mult_less_0_iff)
  have p: "0 < \<bar>m\<bar>"
    using assms(1) by simp
  show ?thesis
    unfolding numberOf_def a s numberFor_binary64[OF p assms(2,3,4)]
    by (simp add: abs_if)
qed

lemma numberOf_int:
  assumes "k \<noteq> 0" "\<bar>k\<bar> < 2 ^ 53"
  shows "numberOf (of_int k) = Val (of_int k)"
  using numberOf_binary64[OF assms, of 0] by (simp add: pow2_def)

lemma numberOf_0: "numberOf 0 = Val 0"
  by (simp add: numberOf_def numberFor_def exponentOf.simps roundHalfEven_def pow2_def)

text \<open>
  Conversely every finite Number but the zeros has that form, so that the Number value
  of the value of a Number is the Number again.
\<close>

lemma numberFor_closed:
  assumes r: "numberFor s x = Val v" and x: "0 \<le> x" and v: "v \<noteq> 0"
  shows "\<exists>m q. m \<noteq> 0 \<and> \<bar>m\<bar> < 2 ^ 53 \<and> - 1074 \<le> q \<and> q \<le> 971 \<and> v = of_int m * pow2 q"
proof -
  define e where "e = exponentOf x"
  define u where "u = max e (- 1022) - 52"
  define k where "k = roundHalfEven (x / pow2 u)"
  define w :: rat where "w = of_int k * pow2 u"
  have nf: "numberFor s x =
      (if 2 ^ 1024 \<le> w then (if s then NegInfinity else Infinity)
       else if w = 0 then (if s then NegZero else Val 0)
       else Val (if s then - w else w))"
    unfolding numberFor_def e_def[symmetric] u_def[symmetric] Let_def k_def[symmetric]
      w_def[symmetric] ..
  have o: "w < pow2 1024"
    using r unfolding nf by (simp add: pow2_def split: if_splits)
  have w0: "w \<noteq> 0"
    using r v unfolding nf by (auto split: if_splits)
  have vw: "v = (if s then - w else w)"
    using r w0 unfolding nf by (simp split: if_splits)
  have "0 \<le> x / pow2 u"
    using x pow2_pos[of u] by simp
  then have "0 \<le> k"
    unfolding k_def using roundHalfEven_ge[of 0] by simp
  moreover have "k \<noteq> 0"
    using w0 unfolding w_def by auto
  ultimately have kp: "0 < k"
    by linarith
  have xp: "0 < x"
  proof (rule ccontr)
    assume "\<not> 0 < x"
    then have "x = 0" using x by simp
    then have "k = 0" unfolding k_def by (simp add: roundHalfEven_def)
    then show False using kp by simp
  qed
  have b: "pow2 e \<le> x" "x < pow2 (e + 1)"
    using exponentOf_bounds[OF xp] unfolding e_def by simp_all
  have ue: "e - 52 \<le> u" "- 1074 \<le> u"
    unfolding u_def by simp_all
  have "x / pow2 u < pow2 (e + 1) / pow2 u"
    using b(2) pow2_pos[of u] by (simp add: divide_strict_right_mono)
  also have "\<dots> = pow2 (e + 1 - u)"
    by (simp add: pow2_diff)
  also have "\<dots> \<le> pow2 53"
    using ue(1) by (intro pow2_mono) simp
  finally have "x / pow2 u \<le> of_int (2 ^ 53)"
    by (simp add: pow2_def)
  then have k53: "k \<le> 2 ^ 53"
    unfolding k_def by (rule roundHalfEven_le)
  show ?thesis
  proof (cases "k = 2 ^ 53")
    case True
    have "w = pow2 53 * pow2 u"
      unfolding w_def True by (simp add: pow2_def)
    then have w': "w = pow2 (53 + u)"
      by (simp add: pow2_add)
    then have "53 + u < 1024"
      using o by (simp only: pow2_less_iff)
    then have q: "- 1074 \<le> u + 1" "u + 1 \<le> 971"
      using ue(2) by simp_all
    have "pow2 (53 + u) = pow2 52 * pow2 (u + 1)"
      by (simp add: pow2_add[symmetric] ac_simps)
    then have "w = of_int (2 ^ 52) * pow2 (u + 1)"
      unfolding w' by (simp add: pow2_def)
    then have "v = of_int (if s then - (2 ^ 52) else 2 ^ 52) * pow2 (u + 1)"
      unfolding vw by simp
    moreover have "(if s then - (2 ^ 52) else 2 ^ 52 :: int) \<noteq> 0"
      "\<bar>if s then - (2 ^ 52) else 2 ^ 52 :: int\<bar> < 2 ^ 53"
      by simp_all
    ultimately show ?thesis
      using q by blast
  next
    case False
    then have k53': "k < 2 ^ 53"
      using k53 by simp
    have "u \<le> 971"
    proof (rule ccontr)
      assume "\<not> u \<le> 971"
      then have big: "971 < u" by simp
      then have eu: "u = e - 52"
        unfolding u_def by simp
      have "pow2 52 = pow2 e / pow2 u"
        unfolding eu by (simp add: pow2_diff[symmetric])
      also have "\<dots> \<le> x / pow2 u"
        using b(1) pow2_pos[of u] by (simp add: divide_right_mono)
      finally have "of_int (2 ^ 52) \<le> x / pow2 u"
        by (simp add: pow2_def)
      then have "2 ^ 52 \<le> k"
        unfolding k_def by (rule roundHalfEven_ge)
      then have "(of_int (2 ^ 52) :: rat) \<le> of_int k"
        by (simp only: of_int_le_iff)
      then have "pow2 52 * pow2 u \<le> w"
        unfolding w_def using pow2_pos[of u] by (simp add: pow2_def)
      then have "pow2 (52 + u) \<le> w"
        by (simp add: pow2_add)
      moreover have "pow2 1024 \<le> pow2 (52 + u)"
        using big by (intro pow2_mono) simp
      ultimately show False
        using o by linarith
    qed
    moreover have "v = of_int (if s then - k else k) * pow2 u"
      unfolding vw w_def by simp
    moreover have "(if s then - k else k) \<noteq> 0" "\<bar>if s then - k else k\<bar> < 2 ^ 53"
      using kp k53' by simp_all
    ultimately show ?thesis
      using ue(2) by blast
  qed
qed

lemma numberOf_idem:
  assumes "numberOf x = Val v"
  shows "numberOf v = Val v"
proof (cases "v = 0")
  case True
  then show ?thesis by (simp add: numberOf_0)
next
  case False
  obtain m q where "m \<noteq> 0" "\<bar>m\<bar> < 2 ^ 53" "- 1074 \<le> q" "q \<le> 971" "v = of_int m * pow2 q"
    using numberFor_closed[OF assms[unfolded numberOf_def] _ False] by auto
  then show ?thesis
    using numberOf_binary64 by simp
qed

text \<open>
  The sum, from the positive zero, of the values of one entry: the value itself, and the
  positive zero also for an amount whose value is the negative zero.
\<close>

lemma numberAdd_0_Val: "numberAdd (Val 0) (Val x) = numberOf x"
  by (simp add: numberAdd_def isInfinite_def)

lemma numberAdd_0_numberOf:
  "numberAdd (Val 0) (numberOf x) = (if numberOf x = NegZero then Val 0 else numberOf x)"
proof (cases "numberOf x")
  case (Val v)
  then show ?thesis
    using numberOf_idem[OF Val] by (simp add: numberAdd_0_Val)
next
  case NegZero
  then show ?thesis
    by (simp add: numberAdd_def isInfinite_def numberOf_0)
qed (simp_all add: numberAdd_def isInfinite_def)

section \<open>Budget alerts (claim C5)\<close>

text \<open>The values of the examples, each from the exponent and the significand of the result.\<close>

lemma numberOf_examples:
  "numberOf 100 = Val 100" "numberOf 80 = Val 80" "numberOf 75 = Val 75"
  "numberOf 74 = Val 74" "numberOf 57 = Val 57" "numberOf 10 = Val 10"
  using numberOf_int[of 100] numberOf_int[of 80] numberOf_int[of 75]
    numberOf_int[of 74] numberOf_int[of 57] numberOf_int[of 10]
  by simp_all

lemma numberOf_201_100: "numberOf (201 / 100) = Val (1131529406376837 / 562949953421312)"
  unfolding numberOf_def
  by (subst numberFor_eval[where e = 1 and q = "- 51" and n = 4526117625507348])
     (simp_all add: pow2_def)

lemma numberOf_201_10: "numberOf (201 / 10) = Val (2828823515942093 / 140737488355328)"
  unfolding numberOf_def
  by (subst numberFor_eval[where e = 4 and q = "- 48" and n = 5657647031884186])
     (simp_all add: pow2_def)

lemma spent_201_100:
  "numberAdd (Val 0) (Val (1131529406376837 / 562949953421312)) = Val (1131529406376837 / 562949953421312)"
  using numberOf_binary64[of 1131529406376837 "- 49"]
  by (simp add: numberAdd_0_Val pow2_def)

lemma percentage_80_100:
  "numberMultiply (numberDivide (Val 80) (Val 100)) (Val 100) = Val 80"
proof -
  have d: "numberDivide (Val 80) (Val 100) = Val (7205759403792794 / 2 ^ 53)"
    unfolding numberDivide_def
    by (subst numberFor_eval[where e = "- 1" and q = "- 53" and n = 7205759403792794])
       (simp_all add: pow2_def isInfinite_def isZero_def)
  show ?thesis
    unfolding d numberMultiply_def
    by (subst numberFor_eval[where e = 6 and q = "- 46" and n = 5629499534213120])
       (simp_all add: pow2_def isInfinite_def isZero_def)
qed

lemma percentage_74_100:
  "numberMultiply (numberDivide (Val 74) (Val 100)) (Val 100) = Val 74"
proof -
  have d: "numberDivide (Val 74) (Val 100) = Val (6665327448508334 / 2 ^ 53)"
    unfolding numberDivide_def
    by (subst numberFor_eval[where e = "- 1" and q = "- 53" and n = 6665327448508334])
       (simp_all add: pow2_def isInfinite_def isZero_def)
  show ?thesis
    unfolding d numberMultiply_def
    by (subst numberFor_eval[where e = 6 and q = "- 46" and n = 5207287069147136])
       (simp_all add: pow2_def isInfinite_def isZero_def)
qed

lemma percentage_57_100:
  "numberMultiply (numberDivide (Val 57) (Val 100)) (Val 100)
   = Val (8022036836253695 / 2 ^ 47)"
proof -
  have d: "numberDivide (Val 57) (Val 100) = Val (5134103575202365 / 2 ^ 53)"
    unfolding numberDivide_def
    by (subst numberFor_eval[where e = "- 1" and q = "- 53" and n = 5134103575202365])
       (simp_all add: pow2_def isInfinite_def isZero_def)
  show ?thesis
    unfolding d numberMultiply_def
    by (subst numberFor_eval[where e = 5 and q = "- 47" and n = 8022036836253695])
       (simp_all add: pow2_def isInfinite_def isZero_def)
qed

lemma percentage_201:
  "numberMultiply
     (numberDivide (Val (1131529406376837 / 562949953421312)) (Val (2828823515942093 / 140737488355328)))
     (Val 100)
   = Val (5629499534213119 / 2 ^ 49)"
proof -
  have d: "numberDivide (Val (1131529406376837 / 562949953421312)) (Val (2828823515942093 / 140737488355328))
      = Val (7205759403792792 / 2 ^ 56)"
    unfolding numberDivide_def
    by (subst numberFor_eval[where e = "- 4" and q = "- 56" and n = 7205759403792792])
       (simp_all add: pow2_def isInfinite_def isZero_def)
  show ?thesis
    unfolding d numberMultiply_def
    by (subst numberFor_eval[where e = 3 and q = "- 49" and n = 5629499534213119])
       (simp_all add: pow2_def isInfinite_def isZero_def)
qed

lemma foldl_budgetAlertStep:
  "foldl (budgetAlertStep th s) acc bs =
     acc @ map (alertFor s)
             (filter (\<lambda>b. numberGreater (numberOf (b_amount b)) (Val 0)
                        \<and> numberGreaterEq
                            (numberMultiply
                               (numberDivide (budgetSpent s b) (numberOf (b_amount b)))
                               (Val 100))
                            (numberOf th)) bs)"
  by (induction bs arbitrary: acc) (simp_all add: budgetAlertStep_def alertFor_def Let_def)

lemma getBudgetAlerts_filter:
  "getBudgetAlerts th s bs code =
     map (alertFor s)
       (filter (\<lambda>b. numberGreater (numberOf (b_amount b)) (Val 0)
                  \<and> numberGreaterEq
                      (numberMultiply (numberDivide (budgetSpent s b) (numberOf (b_amount b)))
                         (Val 100))
                      (numberOf th)) bs)"
  by (simp add: getBudgetAlerts_def foldl_budgetAlertStep)

lemma foldl_numberAdd_map:
  "foldl (\<lambda>sum cb. numberAdd sum (numberOf (cb_amount cb))) a cbs
   = foldl numberAdd a (map (\<lambda>cb. numberOf (cb_amount cb)) cbs)"
  by (induction cbs arbitrary: a) simp_all

text \<open>On finite values the two comparisons are those of the values.\<close>

lemma numberGreaterEq_Val: "numberGreaterEq (Val x) (Val y) \<longleftrightarrow> y \<le> x"
  by (auto simp add: numberGreaterEq_def numberLessThan_def isZero_def)

lemma numberGreater_Val: "numberGreater (Val x) (Val y) \<longleftrightarrow> y < x"
  by (auto simp add: numberGreater_def numberLessThan_def isZero_def)

text \<open>
  Claim C5, as amended. For every summary, budget list and threshold,
  \<^verbatim>\<open>getBudgetAlerts\<close> returns, in the order of the budgets, one alert for each budget
  whose amount is greater than 0 and whose percentage is at least the threshold. The
  percentage is \<^verbatim>\<open>(spent / budget.amount) * 100\<close> in binary64 arithmetic: the quotient
  rounded to the nearest value, then its product with 100 rounded to the nearest value.
  \<open>spent\<close> is the binary64 sum, from 0 and in the order of the breakdown, of the
  entries of the budget's category: 0 when the breakdown has no entry of the category,
  and the Number of the entry's amount when it has one (the positive zero when that
  Number is the negative zero).
  With threshold 75 and budget 100, a spend of 80 gives one alert with
  percentage 80 and a spend of 74 gives none; a budget of amount 0 never gives an alert.
\<close>

theorem getBudgetAlerts_binary64:
  "getBudgetAlerts th s bs code =
     map (\<lambda>b. \<lparr> a_category = b_category b, a_spent = budgetSpent s b,
                 a_budget = numberOf (b_amount b),
                 a_percentage =
                   numberMultiply (numberDivide (budgetSpent s b) (numberOf (b_amount b)))
                     (Val 100) \<rparr>)
       (filter (\<lambda>b. numberGreater (numberOf (b_amount b)) (Val 0)
                  \<and> numberGreaterEq
                      (numberMultiply (numberDivide (budgetSpent s b) (numberOf (b_amount b)))
                         (Val 100))
                      (numberOf th)) bs)
   \<and> budgetSpent s b =
       foldl numberAdd (Val 0)
         (map (\<lambda>cb. numberOf (cb_amount cb))
            (filter (\<lambda>cb. cb_category cb = b_category b) (categoryBreakdown s)))
   \<and> budgetSpent
        \<lparr> totalIncome = i, totalExpense = e, netSavings = n,
          categoryBreakdown = filter (\<lambda>cb. cb_category cb \<noteq> c) cbs \<rparr>
        \<lparr> b_category = c, b_amount = a \<rparr> = Val 0
   \<and> budgetSpent
        \<lparr> totalIncome = i, totalExpense = e, netSavings = n,
          categoryBreakdown =
            filter (\<lambda>cb. cb_category cb \<noteq> c) cbs
            @ [\<lparr> cb_category = c, cb_amount = x \<rparr>]
            @ filter (\<lambda>cb. cb_category cb \<noteq> c) cbs' \<rparr>
        \<lparr> b_category = c, b_amount = a \<rparr>
       = (if numberOf x = NegZero then Val 0 else numberOf x)
   \<and> getBudgetAlerts 75
        \<lparr> totalIncome = 0, totalExpense = 80, netSavings = -80,
          categoryBreakdown = [\<lparr> cb_category = ''Food'', cb_amount = 80 \<rparr>] \<rparr>
        [\<lparr> b_category = ''Food'', b_amount = 100 \<rparr>] ''USD''
       = [\<lparr> a_category = ''Food'', a_spent = Val 80, a_budget = Val 100,
            a_percentage = Val 80 \<rparr>]
   \<and> getBudgetAlerts 75
        \<lparr> totalIncome = 0, totalExpense = 74, netSavings = -74,
          categoryBreakdown = [\<lparr> cb_category = ''Food'', cb_amount = 74 \<rparr>] \<rparr>
        [\<lparr> b_category = ''Food'', b_amount = 100 \<rparr>] ''USD''
       = []
   \<and> getBudgetAlerts th s [\<lparr> b_category = c, b_amount = 0 \<rparr>] code = []"
proof -
  note g = getBudgetAlerts_filter
  have a: "alertFor s = (\<lambda>b. \<lparr> a_category = b_category b, a_spent = budgetSpent s b,
      a_budget = numberOf (b_amount b),
      a_percentage =
        numberMultiply (numberDivide (budgetSpent s b) (numberOf (b_amount b))) (Val 100) \<rparr>)"
    by (simp add: fun_eq_iff alertFor_def)
  have 1: "getBudgetAlerts th s bs code =
     map (\<lambda>b. \<lparr> a_category = b_category b, a_spent = budgetSpent s b,
                 a_budget = numberOf (b_amount b),
                 a_percentage =
                   numberMultiply (numberDivide (budgetSpent s b) (numberOf (b_amount b)))
                     (Val 100) \<rparr>)
       (filter (\<lambda>b. numberGreater (numberOf (b_amount b)) (Val 0)
                  \<and> numberGreaterEq
                      (numberMultiply (numberDivide (budgetSpent s b) (numberOf (b_amount b)))
                         (Val 100))
                      (numberOf th)) bs)"
    unfolding g a ..
  have 2: "budgetSpent s b =
       foldl numberAdd (Val 0)
         (map (\<lambda>cb. numberOf (cb_amount cb))
            (filter (\<lambda>cb. cb_category cb = b_category b) (categoryBreakdown s)))"
    by (simp add: budgetSpent_def foldl_numberAdd_map)
  have 3: "budgetSpent
        \<lparr> totalIncome = i, totalExpense = e, netSavings = n,
          categoryBreakdown = filter (\<lambda>cb. cb_category cb \<noteq> c) cbs \<rparr>
        \<lparr> b_category = c, b_amount = a \<rparr> = Val 0"
    by (simp add: budgetSpent_def)
  have 7: "budgetSpent
        \<lparr> totalIncome = i, totalExpense = e, netSavings = n,
          categoryBreakdown =
            filter (\<lambda>cb. cb_category cb \<noteq> c) cbs
            @ [\<lparr> cb_category = c, cb_amount = x \<rparr>]
            @ filter (\<lambda>cb. cb_category cb \<noteq> c) cbs' \<rparr>
        \<lparr> b_category = c, b_amount = a \<rparr>
       = (if numberOf x = NegZero then Val 0 else numberOf x)"
    by (simp add: budgetSpent_def numberAdd_0_numberOf)
  have 4: "getBudgetAlerts 75
        \<lparr> totalIncome = 0, totalExpense = 80, netSavings = -80,
          categoryBreakdown = [\<lparr> cb_category = ''Food'', cb_amount = 80 \<rparr>] \<rparr>
        [\<lparr> b_category = ''Food'', b_amount = 100 \<rparr>] ''USD''
       = [\<lparr> a_category = ''Food'', a_spent = Val 80, a_budget = Val 100,
            a_percentage = Val 80 \<rparr>]"
    by (simp add: g alertFor_def budgetSpent_def numberOf_examples numberAdd_0_Val
        percentage_80_100 numberGreater_Val numberGreaterEq_Val)
  have 5: "getBudgetAlerts 75
        \<lparr> totalIncome = 0, totalExpense = 74, netSavings = -74,
          categoryBreakdown = [\<lparr> cb_category = ''Food'', cb_amount = 74 \<rparr>] \<rparr>
        [\<lparr> b_category = ''Food'', b_amount = 100 \<rparr>] ''USD''
       = []"
    by (simp add: g alertFor_def budgetSpent_def numberOf_examples numberAdd_0_Val
        percentage_74_100 numberGreater_Val numberGreaterEq_Val)
  have 6: "getBudgetAlerts th s [\<lparr> b_category = c, b_amount = 0 \<rparr>] code = []"
    by (simp add: g numberOf_0 numberGreater_Val)
  show ?thesis
    using 1 2 3 7 4 5 6 by blast
qed

text \<open>
  The claim as it is written, with the percentage an exact quotient, fails where the
  exact percentage equals the threshold and the rounded one falls below it. A spend of
  57 of a budget of 100 is exactly 57 percent, and the code computes
  56.99999999999999 and gives no alert at threshold 57; a spend of 2.01 of a budget of
  20.10, both typed as decimals, is exactly 10 percent, and the code computes
  9.999999999999998 and gives no alert at threshold 10.
\<close>

theorem exact_percentage_counterexample:
  "(0 :: rat) < 100 \<and> (57 :: rat) \<le> 57 / 100 * 100
   \<and> getBudgetAlerts 57
        \<lparr> totalIncome = 0, totalExpense = 57, netSavings = -57,
          categoryBreakdown = [\<lparr> cb_category = ''Food'', cb_amount = 57 \<rparr>] \<rparr>
        [\<lparr> b_category = ''Food'', b_amount = 100 \<rparr>] ''USD''
       = []
   \<and> (0 :: rat) < 201 / 10 \<and> (10 :: rat) \<le> (201 / 100) / (201 / 10) * 100
   \<and> getBudgetAlerts 10
        \<lparr> totalIncome = 0, totalExpense = 201 / 100, netSavings = - (201 / 100),
          categoryBreakdown = [\<lparr> cb_category = ''Food'', cb_amount = 201 / 100 \<rparr>] \<rparr>
        [\<lparr> b_category = ''Food'', b_amount = 201 / 10 \<rparr>] ''USD''
       = []"
proof -
  have 1: "getBudgetAlerts 57
        \<lparr> totalIncome = 0, totalExpense = 57, netSavings = -57,
          categoryBreakdown = [\<lparr> cb_category = ''Food'', cb_amount = 57 \<rparr>] \<rparr>
        [\<lparr> b_category = ''Food'', b_amount = 100 \<rparr>] ''USD''
       = []"
    by (simp add: getBudgetAlerts_filter budgetSpent_def numberOf_examples
        numberAdd_0_Val percentage_57_100 numberGreater_Val numberGreaterEq_Val)
  have 2: "getBudgetAlerts 10
        \<lparr> totalIncome = 0, totalExpense = 201 / 100, netSavings = - (201 / 100),
          categoryBreakdown = [\<lparr> cb_category = ''Food'', cb_amount = 201 / 100 \<rparr>] \<rparr>
        [\<lparr> b_category = ''Food'', b_amount = 201 / 10 \<rparr>] ''USD''
       = []"
    by (simp add: getBudgetAlerts_filter budgetSpent_def numberOf_examples
        numberOf_201_100 numberOf_201_10 spent_201_100 percentage_201
        numberGreater_Val numberGreaterEq_Val)
  show ?thesis
    using 1 2 by simp
qed

section \<open>The period filter (claim C6)\<close>

text \<open>
  The local day to which a date-only string is normalised: the day of the string on a
  host at or east of UTC, the day before on a host west of UTC.
\<close>

lemma setHours0_parseDateOnly:
  assumes "- msPerDay \<le> localTZA h" and "localTZA h < msPerDay"
  shows "setHours0 h (parseDateOnly d)
     = (d + (if 0 \<le> localTZA h then 0 else - 1)) * msPerDay - localTZA h"
proof (cases "0 \<le> localTZA h")
  case True
  then have "Day (d * msPerDay + localTZA h) = d"
    using assms by (intro Day_plus_within) simp_all
  then show ?thesis
    using True by (simp add: setHours0_def parseDateOnly_eq LocalTime_def UTC_def MakeDate_def)
next
  case False
  have "Day (d * msPerDay + localTZA h)
      = Day ((d - 1) * msPerDay + (msPerDay + localTZA h))"
    by (rule arg_cong[of _ _ Day]) (simp add: algebra_simps)
  also have "\<dots> = d - 1"
    using False assms by (intro Day_plus_within) simp_all
  finally show ?thesis
    using False by (simp add: setHours0_def parseDateOnly_eq LocalTime_def UTC_def MakeDate_def)
qed

lemma startOfWeek_eq:
  "setHours0 h (setDate h t (getDate h t - getDay h t))
     = (Day (LocalTime h t) - WeekDay (Day (LocalTime h t))) * msPerDay - localTZA h"
proof -
  let ?lt = "LocalTime h t"
  let ?L = "Day ?lt"
  have md: "MakeDay (YearFromDay ?L) (MonthFromDay ?L) (DateFromDay ?L - WeekDay ?L)
      = ?L - WeekDay ?L"
    using MakeDay_of_day[of ?L "- WeekDay ?L"] by simp
  have "setDate h t (getDate h t - getDay h t)
      = (?L - WeekDay ?L) * msPerDay + TimeWithinDay ?lt - localTZA h"
    by (simp add: setDate_def getDate_def getDay_def Let_def md MakeDate_def UTC_def)
  moreover have "Day ((?L - WeekDay ?L) * msPerDay + TimeWithinDay ?lt) = ?L - WeekDay ?L"
    using TimeWithinDay_bounds[of ?lt] by (intro Day_plus_within) simp_all
  ultimately show ?thesis
    by (simp add: setHours0_def LocalTime_def UTC_def MakeDate_def)
qed

lemma startOfMonth_eq:
  "setHours0 h (newDateLocal h (getFullYear h t) (getMonth h t) 1)
     = (Day (LocalTime h t) - DateFromDay (Day (LocalTime h t)) + 1) * msPerDay - localTZA h"
proof -
  let ?L = "Day (LocalTime h t)"
  have md: "MakeDay (YearFromDay ?L) (MonthFromDay ?L) 1 = ?L - DateFromDay ?L + 1"
    using MakeDay_of_day[of ?L "1 - DateFromDay ?L"] by simp
  have "newDateLocal h (getFullYear h t) (getMonth h t) 1
      = (?L - DateFromDay ?L + 1) * msPerDay - localTZA h"
    unfolding newDateLocal_def getFullYear_def getMonth_def md UTC_def MakeDate_def by simp
  then show ?thesis
    by (simp add: setHours0_def LocalTime_def UTC_def MakeDate_def Day_midnight)
qed

lemma getPeriodTransactions_days:
  assumes "- msPerDay \<le> localTZA h" and "localTZA h < msPerDay"
  shows "getPeriodTransactions h txs period =
     filter
       (\<lambda>tx. if period = ''daily'' then tx_date tx = Day (now h)
             else if period = ''weekly''
               then Day (LocalTime h (now h)) - WeekDay (Day (LocalTime h (now h)))
                      \<le> tx_date tx + (if 0 \<le> localTZA h then 0 else - 1)
             else if period = ''monthly''
               then Day (LocalTime h (now h)) - DateFromDay (Day (LocalTime h (now h))) + 1
                      \<le> tx_date tx + (if 0 \<le> localTZA h then 0 else - 1)
             else False)
       txs"
proof -
  have c: "(a * msPerDay - z \<le> b * msPerDay - z) = (a \<le> b)" for a b z
    using msPerDay_pos by simp
  show ?thesis
    unfolding getPeriodTransactions_def Let_def startOfWeek_eq startOfMonth_eq
      setHours0_parseDateOnly[OF assms] toISODate_def c
    by (rule filter_cong) auto
qed

text \<open>
  On a host at or east of UTC (up to a day) the filter keeps what the claim says, with
  the week and the month of the local day and \<open>today\<close> the UTC day.
\<close>

lemma getPeriodTransactions_east:
  assumes "0 \<le> localTZA h" and "localTZA h < msPerDay"
  shows "getPeriodTransactions h txs ''daily'' = filter (\<lambda>tx. tx_date tx = Day (now h)) txs
    \<and> getPeriodTransactions h txs ''weekly''
        = filter (\<lambda>tx. Day (LocalTime h (now h)) - WeekDay (Day (LocalTime h (now h)))
                         \<le> tx_date tx) txs
    \<and> getPeriodTransactions h txs ''monthly''
        = filter (\<lambda>tx. Day (LocalTime h (now h)) - DateFromDay (Day (LocalTime h (now h))) + 1
                         \<le> tx_date tx) txs"
proof -
  have r: "- msPerDay \<le> localTZA h"
    using assms(1) msPerDay_pos by linarith
  show ?thesis
    using assms(1) by (simp add: getPeriodTransactions_days[OF r assms(2)])
qed

lemma period_filter_utc_example:
  "getPeriodTransactions utcHost [sundayTx] ''weekly'' = [sundayTx]
   \<and> getPeriodTransactions utcHost [marchFirstTx] ''monthly'' = [marchFirstTx]
   \<and> getPeriodTransactions nairobiHost [sundayTx] ''weekly'' = [sundayTx]
   \<and> getPeriodTransactions nairobiHost [marchFirstTx] ''monthly'' = [marchFirstTx]"
  by code_simp

text \<open>
  Claim C6. On the host in UTC-5, on Friday 2024-03-15 (07:00 local time), the most
  recent Sunday is 2024-03-10. The weekly filter drops the transaction dated on that
  Sunday and the monthly filter drops the transaction dated 2024-03-01: the date string
  is parsed as UTC midnight, which is 19:00 of the day before on this host, and
  \<^verbatim>\<open>setHours(0, 0, 0, 0)\<close> then gives the midnight of the day before.
\<close>

theorem period_filter_bogota:
  "isoDateString (tx_date sundayTx) = ''2024-03-10''
   \<and> WeekDay (tx_date sundayTx) = 0
   \<and> Day (LocalTime bogotaHost (now bogotaHost)) = 19797
   \<and> Day (LocalTime bogotaHost (now bogotaHost))
        - WeekDay (Day (LocalTime bogotaHost (now bogotaHost))) = tx_date sundayTx
   \<and> getPeriodTransactions bogotaHost [sundayTx] ''weekly'' = []
   \<and> isoDateString (tx_date marchFirstTx) = ''2024-03-01''
   \<and> getPeriodTransactions bogotaHost [marchFirstTx] ''monthly'' = []"
  by code_simp

section \<open>Currency conversion (claim C7)\<close>



section \<open>Failures of the AI service (claim C9)\<close>

text \<open>
  Claim C9. For every description, \<^verbatim>\<open>categorizeTransaction\<close> is fulfilled and never
  rejected; it is fulfilled with \<open>Others\<close> whenever the remote call is rejected,
  whenever anything else in its \<^verbatim>\<open>try\<close> block throws, and whenever the response is
  an object without a category. For every input, \<^verbatim>\<open>getSpendingInsights\<close> is fulfilled
  and never rejected, with the fixed fallback message whenever the remote call is rejected
  or anything else in its \<^verbatim>\<open>try\<close> block throws.
\<close>

theorem gemini_failures_do_not_escape:
  "(\<exists>category. categorizeTransaction g description = Inr category)
   \<and> (generateContent g (CategorizePrompt (defaultCategories g) description) = Inl e
        \<longrightarrow> categorizeTransaction g description = Inr (JString ''Others''))
   \<and> (categorizeAttempt g description = Inl e
        \<longrightarrow> categorizeTransaction g description = Inr (JString ''Others''))
   \<and> (apiKey g = Some (k # ks)
        \<and> generateContent g (CategorizePrompt (defaultCategories g) description) = Inr (Some text)
        \<and> jsonParse g (trim text) = Inr (JObject members)
        \<and> map_of members ''category'' = None
        \<longrightarrow> categorizeTransaction g description = Inr (JString ''Others''))
   \<and> (\<exists>insights. getSpendingInsights g summary budgets currencyCode = Inr insights)
   \<and> (generateContent g (InsightsPrompt summary budgets currencyCode) = Inl e
        \<longrightarrow> getSpendingInsights g summary budgets currencyCode = Inr (Some insightsFallback))
   \<and> (insightsAttempt g summary budgets currencyCode = Inl e
        \<longrightarrow> getSpendingInsights g summary budgets currencyCode = Inr (Some insightsFallback))"
proof -
  have 1: "\<exists>category. categorizeTransaction g description = Inr category"
    by (cases "categorizeAttempt g description") (simp_all add: categorizeTransaction_def)
  have 2: "categorizeTransaction g description = Inr (JString ''Others'')"
    if "generateContent g (CategorizePrompt (defaultCategories g) description) = Inl e"
    using that
    by (simp add: categorizeTransaction_def categorizeAttempt_def split: sum.splits)
  have 3: "categorizeTransaction g description = Inr (JString ''Others'')"
    if "categorizeAttempt g description = Inl e"
    using that by (simp add: categorizeTransaction_def)
  have 4: "categorizeTransaction g description = Inr (JString ''Others'')"
    if "apiKey g = Some (k # ks)"
      and "generateContent g (CategorizePrompt (defaultCategories g) description)
            = Inr (Some text)"
      and "jsonParse g (trim text) = Inr (JObject members)"
      and "map_of members ''category'' = None"
    using that
    by (simp add: categorizeTransaction_def categorizeAttempt_def getGeminiClient_def)
  have 5: "\<exists>insights. getSpendingInsights g summary budgets currencyCode = Inr insights"
    by (cases "insightsAttempt g summary budgets currencyCode")
      (simp_all add: getSpendingInsights_def)
  have 6: "getSpendingInsights g summary budgets currencyCode = Inr (Some insightsFallback)"
    if "generateContent g (InsightsPrompt summary budgets currencyCode) = Inl e"
    using that
    by (simp add: getSpendingInsights_def insightsAttempt_def split: sum.splits)
  have 7: "getSpendingInsights g summary budgets currencyCode = Inr (Some insightsFallback)"
    if "insightsAttempt g summary budgets currencyCode = Inl e"
    using that by (simp add: getSpendingInsights_def)
  show ?thesis
    using 1 2 3 4 5 6 7 by blast
qed

theorem gemini_failures_do_not_escape_witness:
  "generateContent quotaHost (CategorizePrompt (defaultCategories quotaHost) ''coffee'')
     = Inl (ApiError ''quota'')
   \<and> categorizeAttempt quotaHost ''coffee'' = Inl (ApiError ''quota'')
   \<and> categorizeTransaction quotaHost ''coffee'' = Inr (JString ''Others'')
   \<and> generateContent emptyAnswerHost
       (CategorizePrompt (defaultCategories emptyAnswerHost) ''coffee'') = Inr (Some '' {} '')
   \<and> jsonParse emptyAnswerHost (trim '' {} '') = Inr (JObject [])
   \<and> categorizeTransaction emptyAnswerHost ''coffee'' = Inr (JString ''Others'')
   \<and> generateContent quotaHost
       (InsightsPrompt \<lparr> totalIncome = 0, totalExpense = 0, netSavings = 0,
                         categoryBreakdown = [] \<rparr> [] ''USD'')
     = Inl (ApiError ''quota'')
   \<and> insightsAttempt quotaHost
       \<lparr> totalIncome = 0, totalExpense = 0, netSavings = 0, categoryBreakdown = [] \<rparr> [] ''USD''
     = Inl (ApiError ''quota'')
   \<and> getSpendingInsights quotaHost
       \<lparr> totalIncome = 0, totalExpense = 0, netSavings = 0, categoryBreakdown = [] \<rparr> [] ''USD''
     = Inr (Some insightsFallback)"
proof -
  note q = gemini_failures_do_not_escape[of quotaHost "''coffee''" "ApiError ''quota''"
      "CHR ''k''" "''ey''" "[]" "[]"
      "\<lparr> totalIncome = 0, totalExpense = 0, netSavings = 0, categoryBreakdown = [] \<rparr>"
      "[]" "''USD''"]
  note e = gemini_failures_do_not_escape[of emptyAnswerHost "''coffee''" "ApiError ''quota''"
      "CHR ''k''" "''ey''" "'' {} ''" "[]"
      "\<lparr> totalIncome = 0, totalExpense = 0, netSavings = 0, categoryBreakdown = [] \<rparr>"
      "[]" "''USD''"]
  have t: "trim '' {} '' = ''{}''"
    by (simp add: trim_def isWhiteSpace_def)
  have 1: "generateContent quotaHost (CategorizePrompt (defaultCategories quotaHost) ''coffee'')
     = Inl (ApiError ''quota'')"
    by (simp add: quotaHost_def)
  have 2: "categorizeAttempt quotaHost ''coffee'' = Inl (ApiError ''quota'')"
    by (simp add: quotaHost_def categorizeAttempt_def getGeminiClient_def)
  have 3: "categorizeTransaction quotaHost ''coffee'' = Inr (JString ''Others'')"
    using q 1 by blast
  have 4: "generateContent emptyAnswerHost
       (CategorizePrompt (defaultCategories emptyAnswerHost) ''coffee'') = Inr (Some '' {} '')"
    by (simp add: emptyAnswerHost_def)
  have 5: "jsonParse emptyAnswerHost (trim '' {} '') = Inr (JObject [])"
    by (simp add: emptyAnswerHost_def t)
  have k: "apiKey emptyAnswerHost = Some (CHR ''k'' # ''ey'')"
    by (simp add: emptyAnswerHost_def)
  have 6: "categorizeTransaction emptyAnswerHost ''coffee'' = Inr (JString ''Others'')"
    using e k 4 5 by simp
  have 7: "generateContent quotaHost
       (InsightsPrompt \<lparr> totalIncome = 0, totalExpense = 0, netSavings = 0,
                         categoryBreakdown = [] \<rparr> [] ''USD'')
     = Inl (ApiError ''quota'')"
    by (simp add: quotaHost_def)
  have 8: "insightsAttempt quotaHost
       \<lparr> totalIncome = 0, totalExpense = 0, netSavings = 0, categoryBreakdown = [] \<rparr> [] ''USD''
     = Inl (ApiError ''quota'')"
    by (simp add: quotaHost_def insightsAttempt_def getGeminiClient_def)
  have 9: "getSpendingInsights quotaHost
       \<lparr> totalIncome = 0, totalExpense = 0, netSavings = 0, categoryBreakdown = [] \<rparr> [] ''USD''
     = Inr (Some insightsFallback)"
    using q 7 by blast
  show ?thesis
    using 1 2 3 4 5 6 7 8 9 by blast
qed

section \<open>The merged list (claim C10)\<close>

lemma set_insertSorted: "set (insertSorted cmp x ys) = insert x (set ys)"
  by (induction ys) auto

lemma set_arraySort: "set (arraySort cmp xs) = set xs"
  by (induction xs) (simp_all add: arraySort_def set_insertSorted)

lemma distinct_map_insertSorted:
  "distinct (map f (insertSorted cmp x ys)) \<longleftrightarrow> f x \<notin> f ` set ys \<and> distinct (map f ys)"
  by (induction ys) (auto simp: set_insertSorted)

lemma distinct_map_arraySort:
  "distinct (map f (arraySort cmp xs)) \<longleftrightarrow> distinct (map f xs)"
proof (induction xs)
  case Nil
  then show ?case by (simp add: arraySort_def)
next
  case (Cons x xs)
  have "arraySort cmp (x # xs) = insertSorted cmp x (arraySort cmp xs)"
    by (simp add: arraySort_def)
  then show ?case
    using Cons.IH by (simp add: distinct_map_insertSorted set_arraySort)
qed

lemma sorted_insertSorted:
  assumes total: "\<And>a b. cmp a b \<le> 0 \<or> cmp b a \<le> 0"
    and trans: "\<And>a b c. cmp a b \<le> 0 \<Longrightarrow> cmp b c \<le> 0 \<Longrightarrow> cmp a c \<le> 0"
    and srt: "sorted_wrt (\<lambda>a b. cmp a b \<le> 0) ys"
  shows "sorted_wrt (\<lambda>a b. cmp a b \<le> 0) (insertSorted cmp x ys)"
  using srt
proof (induction ys)
  case Nil
  then show ?case by simp
next
  case (Cons y ys)
  show ?case
  proof (cases "cmp x y \<le> 0")
    case True
    then have "\<forall>z \<in> set ys. cmp x z \<le> 0"
      using Cons.prems trans by auto
    then show ?thesis using True Cons.prems by simp
  next
    case False
    then have "cmp y x \<le> 0" using total[of x y] by simp
    then show ?thesis
      using False Cons by (auto simp: set_insertSorted)
  qed
qed

lemma sorted_arraySort:
  assumes total: "\<And>a b. cmp a b \<le> 0 \<or> cmp b a \<le> 0"
    and trans: "\<And>a b c. cmp a b \<le> 0 \<Longrightarrow> cmp b c \<le> 0 \<Longrightarrow> cmp a c \<le> 0"
  shows "sorted_wrt (\<lambda>a b. cmp a b \<le> 0) (arraySort cmp xs)"
proof (induction xs)
  case Nil
  then show ?case by (simp add: arraySort_def)
next
  case (Cons x xs)
  have "arraySort cmp (x # xs) = insertSorted cmp x (arraySort cmp xs)"
    by (simp add: arraySort_def)
  then show ?case
    using sorted_insertSorted[OF total trans Cons.IH] by simp
qed

lemma compareTransactions_le:
  "compareTransactions lc a b \<le> 0 \<longleftrightarrow>
     tx_date a < tx_date b \<or> (tx_date a = tx_date b \<and> lc (tx_id a) (tx_id b) \<le> 0)"
proof -
  have "parseDateOnly (tx_date a) - parseDateOnly (tx_date b)
      = (tx_date a - tx_date b) * msPerDay"
    by (simp add: parseDateOnly_eq algebra_simps)
  moreover have "(tx_date a - tx_date b) * msPerDay \<le> 0 \<longleftrightarrow> tx_date a \<le> tx_date b"
    using msPerDay_pos by (simp add: mult_le_0_iff)
  moreover have "(tx_date a - tx_date b) * msPerDay = 0 \<longleftrightarrow> tx_date a = tx_date b"
    using msPerDay_pos by simp
  ultimately show ?thesis
    by (auto simp: compareTransactions_def Let_def)
qed

lemma codeUnitCompare_Cons_le:
  "codeUnitCompare (x # xs) (y # ys) \<le> 0 \<longleftrightarrow>
     (of_char x :: nat) < of_char y
     \<or> ((of_char x :: nat) = of_char y \<and> codeUnitCompare xs ys \<le> 0)"
  by auto

lemma codeUnitCompare_Nil_le: "codeUnitCompare [] b \<le> 0"
  by (cases b) simp_all

lemma codeUnitCompare_le_Nil: "codeUnitCompare a [] \<le> 0 \<longleftrightarrow> a = []"
  by (cases a) simp_all

lemma codeUnitCompare_total: "codeUnitCompare a b \<le> 0 \<or> codeUnitCompare b a \<le> 0"
proof (induction a arbitrary: b)
  case Nil
  then show ?case by (simp add: codeUnitCompare_Nil_le)
next
  case (Cons x xs)
  show ?case
  proof (cases b)
    case Nil
    then show ?thesis by (simp add: codeUnitCompare_Nil_le)
  next
    case (Cons y ys)
    show ?thesis
      unfolding Cons codeUnitCompare_Cons_le using Cons.IH[of ys] by linarith
  qed
qed

lemma codeUnitCompare_trans:
  "codeUnitCompare a b \<le> 0 \<Longrightarrow> codeUnitCompare b c \<le> 0 \<Longrightarrow> codeUnitCompare a c \<le> 0"
proof (induction a arbitrary: b c)
  case Nil
  then show ?case by (simp add: codeUnitCompare_Nil_le)
next
  case (Cons x xs)
  obtain y ys where b: "b = y # ys"
    using Cons.prems(1) codeUnitCompare_le_Nil[of "x # xs"] by (cases b) auto
  obtain z zs where c: "c = z # zs"
    using Cons.prems(2) codeUnitCompare_le_Nil[of b] b by (cases c) auto
  have 1: "(of_char x :: nat) < of_char y
     \<or> ((of_char x :: nat) = of_char y \<and> codeUnitCompare xs ys \<le> 0)"
    using Cons.prems(1) unfolding b codeUnitCompare_Cons_le .
  have 2: "(of_char y :: nat) < of_char z
     \<or> ((of_char y :: nat) = of_char z \<and> codeUnitCompare ys zs \<le> 0)"
    using Cons.prems(2) unfolding b c codeUnitCompare_Cons_le .
  have "(of_char x :: nat) < of_char z
     \<or> ((of_char x :: nat) = of_char z \<and> codeUnitCompare xs zs \<le> 0)"
    using 1 2 Cons.IH[of ys zs] by linarith
  then show ?case unfolding c codeUnitCompare_Cons_le .
qed

lemma set_mergeNewTransactions:
  "set (mergeNewTransactions lc generated prevTxs)
     = set prevTxs \<union> {n \<in> set generated. tx_id n \<notin> tx_id ` set prevTxs}"
  by (auto simp: mergeNewTransactions_def set_arraySort list_ex_id)

text \<open>
  Claim C10. When the effect merges generated transactions into the stored list, with
  a \<^verbatim>\<open>localeCompare\<close> that is a consistent comparator (total and transitive) and
  a stored list without duplicate ids: the merged list is sorted by date, equal dates by
  \<^verbatim>\<open>localeCompare\<close> of the ids; it consists of the stored transactions and of the
  generated ones whose id does not occur in the stored list; it has no duplicate ids when
  the generated ones have none, and the transactions that the materializer generates
  from rules with distinct ids have none (the ids of the rules are free of hyphens, as
  those that the form creates are).
\<close>

theorem merge_distinct_sorted:
  assumes total: "\<forall>a b. localeCompare a b \<le> 0 \<or> localeCompare b a \<le> 0"
    and trans: "\<forall>a b c. localeCompare a b \<le> 0 \<and> localeCompare b c \<le> 0
                  \<longrightarrow> localeCompare a c \<le> 0"
    and prev: "distinct (map tx_id prevTxs)"
  shows "(distinct (map tx_id generated) \<longrightarrow>
           distinct (map tx_id (mergeNewTransactions localeCompare generated prevTxs)))
    \<and> sorted_wrt
         (\<lambda>a b. tx_date a < tx_date b
                \<or> (tx_date a = tx_date b \<and> localeCompare (tx_id a) (tx_id b) \<le> 0))
         (mergeNewTransactions localeCompare generated prevTxs)
    \<and> set (mergeNewTransactions localeCompare generated prevTxs)
        = set prevTxs \<union> {n \<in> set generated. tx_id n \<notin> tx_id ` set prevTxs}
    \<and> (distinct (map rt_id rules) \<and> (\<forall>rt \<in> set rules. CHR ''-'' \<notin> set (rt_id rt)) \<longrightarrow>
         distinct (map tx_id
           (mergeNewTransactions localeCompare
              (newTransactions (processRecurringTransactions h rules prevTxs)) prevTxs)))"
proof -
  let ?cmp = "compareTransactions localeCompare"
  let ?u = "filter (\<lambda>newTx. \<not> list_ex (\<lambda>prevTx. tx_id prevTx = tx_id newTx) prevTxs)"
  have m: "mergeNewTransactions localeCompare g prevTxs = arraySort ?cmp (prevTxs @ ?u g)" for g
    by (simp add: mergeNewTransactions_def)
  have tot: "?cmp a b \<le> 0 \<or> ?cmp b a \<le> 0" for a b
    using total unfolding compareTransactions_le by (metis linorder_less_linear)
  have tr: "?cmp a b \<le> 0 \<Longrightarrow> ?cmp b c \<le> 0 \<Longrightarrow> ?cmp a c \<le> 0" for a b c
    using trans unfolding compareTransactions_le by (metis order_less_trans)
  have d: "distinct (map tx_id (mergeNewTransactions localeCompare g prevTxs))"
    if "distinct (map tx_id g)" for g
  proof -
    have "distinct (map tx_id (?u g))"
      using that by (simp add: distinct_map_filter)
    moreover have "tx_id ` set prevTxs \<inter> tx_id ` set (?u g) = {}"
      by (auto simp: list_ex_iff)
    ultimately show ?thesis
      using prev by (simp add: m distinct_map_arraySort)
  qed
  have s: "sorted_wrt
         (\<lambda>a b. tx_date a < tx_date b
                \<or> (tx_date a = tx_date b \<and> localeCompare (tx_id a) (tx_id b) \<le> 0))
         (mergeNewTransactions localeCompare generated prevTxs)"
  proof -
    have "sorted_wrt (\<lambda>a b. ?cmp a b \<le> 0) (arraySort ?cmp (prevTxs @ ?u generated))"
      by (rule sorted_arraySort[OF tot tr])
    then show ?thesis
      by (simp add: m compareTransactions_le)
  qed
  have e: "set (mergeNewTransactions localeCompare generated prevTxs)
        = set prevTxs \<union> {n \<in> set generated. tx_id n \<notin> tx_id ` set prevTxs}"
    by (auto simp: m set_arraySort list_ex_id)
  have g: "distinct (map tx_id
           (mergeNewTransactions localeCompare
              (newTransactions (processRecurringTransactions h rules prevTxs)) prevTxs))"
    if "distinct (map rt_id rules)" "\<forall>rt \<in> set rules. CHR ''-'' \<notin> set (rt_id rt)"
    using d[OF new_ids_distinct[OF that]] .
  show ?thesis using d s e g by blast
qed

theorem merge_distinct_sorted_witness:
  "distinct (map tx_id
     (mergeNewTransactions codeUnitCompare
        (newTransactions (processRecurringTransactions utcHost [gymRule, coffeeRule] [coffeeTx]))
        [coffeeTx]))
   \<and> sorted_wrt
         (\<lambda>a b. tx_date a < tx_date b
                \<or> (tx_date a = tx_date b \<and> codeUnitCompare (tx_id a) (tx_id b) \<le> 0))
         (mergeNewTransactions codeUnitCompare
            (newTransactions (processRecurringTransactions utcHost [gymRule, coffeeRule] [coffeeTx]))
            [coffeeTx])"
proof -
  have total: "\<forall>a b. codeUnitCompare a b \<le> 0 \<or> codeUnitCompare b a \<le> 0"
    using codeUnitCompare_total by blast
  have trans: "\<forall>a b c. codeUnitCompare a b \<le> 0 \<and> codeUnitCompare b c \<le> 0
                  \<longrightarrow> codeUnitCompare a c \<le> 0"
    using codeUnitCompare_trans by blast
  have prev: "distinct (map tx_id [coffeeTx])" by simp
  have rules: "distinct (map rt_id [gymRule, coffeeRule])
      \<and> (\<forall>rt \<in> set [gymRule, coffeeRule]. CHR ''-'' \<notin> set (rt_id rt))"
    by (simp add: gymRule_def coffeeRule_def)
  show ?thesis
    using merge_distinct_sorted[OF total trans prev,
        of "newTransactions (processRecurringTransactions utcHost [gymRule, coffeeRule] [coffeeTx])"
           "[gymRule, coffeeRule]" utcHost] rules
    by blast
qed

section \<open>How far one pass advances a rule (claim C8)\<close>

lemma materializationEffect_utc:
  assumes tz: "localTZA h = 0"
  shows "st_recurringTransactions (materializationEffect lc h st)
       = map (\<lambda>rt. rt\<lparr>rt_nextOccurrenceDate :=
               nextAfter (rt_frequency rt) (rt_nextOccurrenceDate rt) (Day (now h))\<rparr>)
           (st_recurringTransactions st)"
    and "set (st_transactions (materializationEffect lc h st))
       = set (st_transactions st)
         \<union> set (newTransactions (processRecurringTransactions h
                  (st_recurringTransactions st) (st_transactions st)))"
proof -
  let ?rules = "st_recurringTransactions st"
  let ?txs = "st_transactions st"
  let ?T = "Day (now h)"
  let ?up = "\<lambda>rt. rt\<lparr>rt_nextOccurrenceDate :=
               nextAfter (rt_frequency rt) (rt_nextOccurrenceDate rt) ?T\<rparr>"
  let ?r = "processRecurringTransactions h ?rules ?txs"
  have upd: "updatedRecurringTxs ?r = map ?up ?rules"
    and any: "anyRecurringNextOccurrenceChanged ?r
        = list_ex (\<lambda>rt. rt_nextOccurrenceDate rt \<le> ?T) ?rules"
    by (simp_all add: processRecurringTransactions_utc_all[OF tz])
  have same: "map ?up ?rules = ?rules" if "\<not> anyRecurringNextOccurrenceChanged ?r"
  proof -
    have "?up rt = rt" if "rt \<in> set ?rules" for rt
    proof -
      have "?T < rt_nextOccurrenceDate rt"
        using that \<open>\<not> anyRecurringNextOccurrenceChanged ?r\<close>
        by (auto simp: any list_ex_iff)
      then show ?thesis by (simp add: nextAfter_not_due)
    qed
    then show ?thesis by (simp add: map_idI)
  qed
  show "st_recurringTransactions (materializationEffect lc h st) = map ?up ?rules"
    using upd same by (simp add: materializationEffect_def Let_def)
  have fresh: "{n \<in> set (newTransactions ?r). tx_id n \<notin> tx_id ` set ?txs}
      = set (newTransactions ?r)"
    using new_ids_not_existing[of _ h ?rules ?txs] by blast
  have empty: "newTransactions (processRecurringTransactions h [] ?txs) = []"
    by (simp add: processRecurringTransactions_struct)
  show "set (st_transactions (materializationEffect lc h st))
       = set ?txs \<union> set (newTransactions ?r)"
    using fresh empty
    by (auto simp: materializationEffect_def Let_def set_mergeNewTransactions)
qed

lemma nextAfterMaterialized_effect:
  assumes tz: "localTZA h = 0"
    and ids: "distinct (map rt_id (st_recurringTransactions st))"
    and hyph: "\<forall>rt \<in> set (st_recurringTransactions st). CHR ''-'' \<notin> set (rt_id rt)"
    and inv: "nextAfterMaterialized st"
  shows "nextAfterMaterialized (materializationEffect lc h st)"
proof -
  let ?rules = "st_recurringTransactions st"
  let ?txs = "st_transactions st"
  let ?T = "Day (now h)"
  let ?N = "\<lambda>rt. nextAfter (rt_frequency rt) (rt_nextOccurrenceDate rt) ?T"
  let ?up = "\<lambda>rt. rt\<lparr>rt_nextOccurrenceDate := ?N rt\<rparr>"
  let ?r = "processRecurringTransactions h ?rules ?txs"
  have "tx_date tx < ?N rt"
    if rt: "rt \<in> set ?rules"
      and tx: "tx \<in> set ?txs \<union> set (newTransactions ?r)"
      and mf: "materializedFrom rt tx" for rt tx
  proof (cases "tx \<in> set ?txs")
    case True
    then have "tx_date tx < rt_nextOccurrenceDate rt"
      using inv rt mf by (auto simp: nextAfterMaterialized_def)
    then show ?thesis
      using nextAfter_ge[of "rt_nextOccurrenceDate rt" "rt_frequency rt" ?T] by linarith
  next
    case False
    then have "tx \<in> set (newTransactions ?r)" using tx by simp
    then obtain r2 d where r2: "r2 \<in> set ?rules"
      and d: "d \<in> set (occurrenceDays (rt_frequency r2) (rt_nextOccurrenceDate r2) ?T)"
      and t: "tx = newTx r2 (d * msPerDay)"
      by (auto simp: processRecurringTransactions_utc_all[OF tz])
    have id2: "tx_id tx = rt_id r2 @ ''-'' @ isoDateString d" and date: "tx_date tx = d"
      by (simp_all add: t newTx_midnight)
    have "rt_id rt = rt_id r2"
      using id_prefix_eq[of "rt_id rt" "rt_id r2" "isoDateString (tx_date tx)" "isoDateString d"]
        hyph rt r2 mf id2 by (simp add: materializedFrom_def)
    then have "rt = r2"
      using ids rt r2 by (meson distinct_map inj_onD)
    then have "d \<le> ?T"
      using d occurrenceDays_bounds by blast
    then show ?thesis
      using date nextAfter_gt[of ?T "rt_frequency rt" "rt_nextOccurrenceDate rt"] by linarith
  qed
  then show ?thesis
    unfolding nextAfterMaterialized_def materializationEffect_utc[OF tz]
    by (auto simp: materializedFrom_def)
qed

lemma rule_ids_effect:
  assumes tz: "localTZA h = 0"
  shows "map rt_id (st_recurringTransactions (materializationEffect lc h st))
     = map rt_id (st_recurringTransactions st)"
  by (simp add: materializationEffect_utc(1)[OF tz] comp_def)

lemma nextAfterMaterialized_cycles:
  assumes "\<forall>h \<in> set hs. localTZA h = 0"
    and "distinct (map rt_id (st_recurringTransactions st))"
    and "\<forall>rt \<in> set (st_recurringTransactions st). CHR ''-'' \<notin> set (rt_id rt)"
    and "nextAfterMaterialized st"
  shows "nextAfterMaterialized (materializationCycles lc hs st)"
  using assms
proof (induction hs arbitrary: st)
  case Nil
  then show ?case by simp
next
  case (Cons h hs)
  have tz: "localTZA h = 0" using Cons.prems(1) by simp
  let ?st = "materializationEffect lc h st"
  have ids: "map rt_id (st_recurringTransactions ?st) = map rt_id (st_recurringTransactions st)"
    by (rule rule_ids_effect[OF tz])
  have d: "distinct (map rt_id (st_recurringTransactions ?st))"
    using Cons.prems(2) ids by simp
  have "rt_id ` set (st_recurringTransactions ?st) = rt_id ` set (st_recurringTransactions st)"
    using ids by (metis set_map)
  then have hy: "\<forall>rt \<in> set (st_recurringTransactions ?st). CHR ''-'' \<notin> set (rt_id rt)"
    using Cons.prems(3) by (metis (no_types, lifting) image_iff)
  have inv: "nextAfterMaterialized ?st"
    using nextAfterMaterialized_effect[OF tz Cons.prems(2,3,4)] .
  show ?case
    using Cons.IH[OF _ d hy inv] Cons.prems(1) by simp
qed

text \<open>
  Claim C8, for hosts whose local zone is UTC. One call advances the next-occurrence
  date of a rule by as many frequency steps as there are occurrence dates up to today:
  none when the rule is not due, at least one when it is. Afterwards the date is not
  before its old value, after today, and after the date of every transaction that the
  call generated for the rule. One step is one day for a daily rule and for an
  unrecognized frequency, seven days for a weekly rule, \<^verbatim>\<open>setMonth(getMonth() + 1)\<close>
  for a monthly and \<^verbatim>\<open>setFullYear(getFullYear() + 1)\<close> for a yearly rule: the same
  day of the next month or year when the day of the month is at most 28; a step always
  moves forward. Over every sequence of cycles on states whose rule ids are distinct
  and free of hyphens, every rule's next-occurrence date stays after the date of every
  stored transaction materialized from it.
\<close>

theorem next_occurrence_advances_utc:
  assumes tz: "localTZA h = 0"
  shows
    "updatedRecurringTxs (processRecurringTransactions h [rt] txs)
       = [rt\<lparr>rt_nextOccurrenceDate :=
              (stepDay (rt_frequency rt)
                 ^^ length (occurrenceDays (rt_frequency rt) (rt_nextOccurrenceDate rt)
                              (Day (now h))))
                (rt_nextOccurrenceDate rt)\<rparr>]
     \<and> (0 < length (occurrenceDays (rt_frequency rt) (rt_nextOccurrenceDate rt) (Day (now h)))
          \<longleftrightarrow> rt_nextOccurrenceDate rt \<le> Day (now h))
     \<and> (\<forall>r' \<in> set (updatedRecurringTxs (processRecurringTransactions h [rt] txs)).
           rt_nextOccurrenceDate rt \<le> rt_nextOccurrenceDate r'
           \<and> Day (now h) < rt_nextOccurrenceDate r'
           \<and> (\<forall>tx \<in> set (newTransactions (processRecurringTransactions h [rt] txs)).
                 tx_date tx < rt_nextOccurrenceDate r'))
     \<and> stepDay ''daily'' d = d + 1
     \<and> stepDay ''weekly'' d = d + 7
     \<and> stepDay ''monthly'' d = MakeDay (YearFromDay d) (MonthFromDay d + 1) (DateFromDay d)
     \<and> stepDay ''yearly'' d = MakeDay (YearFromDay d + 1) (MonthFromDay d) (DateFromDay d)
     \<and> (f \<notin> {''daily'', ''weekly'', ''monthly'', ''yearly''} \<longrightarrow> stepDay f d = d + 1)
     \<and> d < stepDay f d
     \<and> (DateFromDay d \<le> 28 \<longrightarrow>
          DateFromDay (stepDay ''monthly'' d) = DateFromDay d
          \<and> MonthFromDay (stepDay ''monthly'' d) = (MonthFromDay d + 1) mod 12
          \<and> YearFromDay (stepDay ''monthly'' d) = YearFromDay d + (MonthFromDay d + 1) div 12)
     \<and> (DateFromDay d \<le> 28 \<longrightarrow>
          DateFromDay (stepDay ''yearly'' d) = DateFromDay d
          \<and> MonthFromDay (stepDay ''yearly'' d) = MonthFromDay d
          \<and> YearFromDay (stepDay ''yearly'' d) = YearFromDay d + 1)
     \<and> ((\<forall>h' \<in> set hs. localTZA h' = 0)
          \<and> distinct (map rt_id (st_recurringTransactions st))
          \<and> (\<forall>r \<in> set (st_recurringTransactions st). CHR ''-'' \<notin> set (rt_id r))
          \<and> nextAfterMaterialized st
          \<longrightarrow> nextAfterMaterialized (materializationCycles lc hs st))"
proof -
  let ?f = "rt_frequency rt"
  let ?D = "rt_nextOccurrenceDate rt"
  let ?T = "Day (now h)"
  let ?r = "processRecurringTransactions h [rt] txs"
  let ?N = "nextAfter ?f ?D ?T"
  have upd: "updatedRecurringTxs ?r = [rt\<lparr>rt_nextOccurrenceDate := ?N\<rparr>]"
    by (simp add: processRecurringTransactions_utc[OF tz])
  have 1: "updatedRecurringTxs ?r
       = [rt\<lparr>rt_nextOccurrenceDate := (stepDay ?f ^^ length (occurrenceDays ?f ?D ?T)) ?D\<rparr>]"
    unfolding upd by (simp add: nextAfter_funpow)
  have 2: "0 < length (occurrenceDays ?f ?D ?T) \<longleftrightarrow> ?D \<le> ?T"
    using occurrenceDays_nonempty_iff[of ?f ?D ?T] by simp
  have dates: "tx_date tx < ?N" if "tx \<in> set (newTransactions ?r)" for tx
  proof -
    have "tx_date tx \<in> set (occurrenceDays ?f ?D ?T)"
      using that by (auto simp: processRecurringTransactions_utc[OF tz] newTx_midnight)
    then have "tx_date tx \<le> ?T"
      using occurrenceDays_bounds by blast
    then show ?thesis
      using nextAfter_gt[of ?T ?f ?D] by linarith
  qed
  have 3: "\<forall>r' \<in> set (updatedRecurringTxs ?r).
           ?D \<le> rt_nextOccurrenceDate r' \<and> ?T < rt_nextOccurrenceDate r'
           \<and> (\<forall>tx \<in> set (newTransactions ?r). tx_date tx < rt_nextOccurrenceDate r')"
    unfolding upd using dates nextAfter_ge[of ?D ?f ?T] nextAfter_gt[of ?T ?f ?D] by simp
  have 4: "stepDay ''daily'' d = d + 1" "stepDay ''weekly'' d = d + 7"
    "stepDay ''monthly'' d = MakeDay (YearFromDay d) (MonthFromDay d + 1) (DateFromDay d)"
    "stepDay ''yearly'' d = MakeDay (YearFromDay d + 1) (MonthFromDay d) (DateFromDay d)"
    by (simp_all add: stepDay_cases)
  have 5: "stepDay f d = d + 1" if "f \<notin> {''daily'', ''weekly'', ''monthly'', ''yearly''}"
    using that by (simp add: stepDay_cases)
  have 6: "nextAfterMaterialized (materializationCycles lc hs st)"
    if "(\<forall>h' \<in> set hs. localTZA h' = 0)
          \<and> distinct (map rt_id (st_recurringTransactions st))
          \<and> (\<forall>r \<in> set (st_recurringTransactions st). CHR ''-'' \<notin> set (rt_id r))
          \<and> nextAfterMaterialized st"
    using that nextAfterMaterialized_cycles[of hs st lc] by blast
  show ?thesis
    using 1 2 3 4 5 stepDay_gt[of d f] stepDay_monthly_civil[of d] stepDay_yearly_civil[of d] 6
    by blast
qed

theorem next_occurrence_advances_utc_witness:
  "updatedRecurringTxs (processRecurringTransactions utcHost [gymRule] [])
       = [gymRule\<lparr>rt_nextOccurrenceDate :=
              (stepDay (rt_frequency gymRule)
                 ^^ length (occurrenceDays (rt_frequency gymRule)
                              (rt_nextOccurrenceDate gymRule) (Day (now utcHost))))
                (rt_nextOccurrenceDate gymRule)\<rparr>]
   \<and> length (occurrenceDays (rt_frequency gymRule) (rt_nextOccurrenceDate gymRule)
         (Day (now utcHost))) = 3
   \<and> stepDay ''unknown'' 19797 = 19798
   \<and> DateFromDay 19723 = 1
   \<and> DateFromDay (stepDay ''monthly'' 19723) = 1
   \<and> MonthFromDay (stepDay ''monthly'' 19723) = 1
   \<and> nextAfterMaterialized
       (materializationCycles codeUnitCompare [utcHost, utcHost]
          \<lparr> st_transactions = [], st_recurringTransactions = [gymRule] \<rparr>)"
proof -
  have tz: "localTZA utcHost = 0"
    by (simp add: utcHost_def)
  note g = next_occurrence_advances_utc[OF tz, of gymRule "[]" 19797 "''unknown''"
      "[utcHost, utcHost]" "\<lparr> st_transactions = [], st_recurringTransactions = [gymRule] \<rparr>"
      codeUnitCompare]
  note g' = next_occurrence_advances_utc[OF tz, of gymRule "[]" 19723 "''unknown''"
      "[]" "\<lparr> st_transactions = [], st_recurringTransactions = [] \<rparr>" codeUnitCompare]
  have 1: "updatedRecurringTxs (processRecurringTransactions utcHost [gymRule] [])
       = [gymRule\<lparr>rt_nextOccurrenceDate :=
              (stepDay (rt_frequency gymRule)
                 ^^ length (occurrenceDays (rt_frequency gymRule)
                              (rt_nextOccurrenceDate gymRule) (Day (now utcHost))))
                (rt_nextOccurrenceDate gymRule)\<rparr>]"
    using g by blast
  have 2: "length (occurrenceDays (rt_frequency gymRule) (rt_nextOccurrenceDate gymRule)
         (Day (now utcHost))) = 3"
    by code_simp
  have 3: "stepDay ''unknown'' 19797 = 19798"
    using g by simp
  have first: "DateFromDay 19723 = 1" "MonthFromDay 19723 = 0"
    by code_simp+
  have m: "DateFromDay 19723 \<le> 28 \<longrightarrow>
          DateFromDay (stepDay ''monthly'' 19723) = DateFromDay 19723
          \<and> MonthFromDay (stepDay ''monthly'' 19723) = (MonthFromDay 19723 + 1) mod 12
          \<and> YearFromDay (stepDay ''monthly'' 19723)
              = YearFromDay 19723 + (MonthFromDay 19723 + 1) div 12"
    using g' by blast
  have 4: "DateFromDay (stepDay ''monthly'' 19723) = 1"
    "MonthFromDay (stepDay ''monthly'' 19723) = 1"
    using m first by simp_all
  have hyps: "(\<forall>h' \<in> set [utcHost, utcHost]. localTZA h' = 0)
      \<and> distinct (map rt_id (st_recurringTransactions
            \<lparr> st_transactions = [], st_recurringTransactions = [gymRule] \<rparr>))
      \<and> (\<forall>r \<in> set (st_recurringTransactions
            \<lparr> st_transactions = [], st_recurringTransactions = [gymRule] \<rparr>).
            CHR ''-'' \<notin> set (rt_id r))
      \<and> nextAfterMaterialized \<lparr> st_transactions = [], st_recurringTransactions = [gymRule] \<rparr>"
    by (simp add: tz gymRule_def nextAfterMaterialized_def)
  have 5: "nextAfterMaterialized
       (materializationCycles codeUnitCompare [utcHost, utcHost]
          \<lparr> st_transactions = [], st_recurringTransactions = [gymRule] \<rparr>)"
    using g hyps by blast
  show ?thesis using 1 2 3 first(1) 4 5 by blast
qed

text \<open>
  One call advances the monthly rule of the example by three steps, from 2024-01-01 to
  2024-04-01 (day 19814); one step leads to 2024-02-01 (day 19754).
\<close>

theorem next_occurrence_one_step_counterexample:
  "map rt_nextOccurrenceDate (updatedRecurringTxs (processRecurringTransactions utcHost [gymRule] []))
     = [19814]
   \<and> stepDay (rt_frequency gymRule) (rt_nextOccurrenceDate gymRule) = 19754"
  by code_simp

end
